theory Spec2Isabelle
  imports Complex_Main "HOL-Library.Sublist" "HOL-Library.Multiset"
begin

section \<open>Strings\<close>

text \<open>
  Python strings are modelled as character lists, a character being a code point below 256.
  On these \<open>str.lower\<close> maps the letters A to Z and the upper-case letters of Latin-1
  (code points C0 to DE, the multiplication sign D7 apart) to their lower-case letters, 32
  code points higher, and leaves every other character as it is.
\<close>

definition upper_letters :: string where
  "upper_letters = ''ABCDEFGHIJKLMNOPQRSTUVWXYZ'' @
     [
        CHR 0xC0, CHR 0xC1, CHR 0xC2, CHR 0xC3, CHR 0xC4, CHR 0xC5, CHR 0xC6, CHR 0xC7,
        CHR 0xC8, CHR 0xC9, CHR 0xCA, CHR 0xCB, CHR 0xCC, CHR 0xCD, CHR 0xCE, CHR 0xCF,
        CHR 0xD0, CHR 0xD1, CHR 0xD2, CHR 0xD3, CHR 0xD4, CHR 0xD5, CHR 0xD6, CHR 0xD8,
        CHR 0xD9, CHR 0xDA, CHR 0xDB, CHR 0xDC, CHR 0xDD, CHR 0xDE]"

definition lower_letters :: string where
  "lower_letters = ''abcdefghijklmnopqrstuvwxyz'' @
     [
        CHR 0xE0, CHR 0xE1, CHR 0xE2, CHR 0xE3, CHR 0xE4, CHR 0xE5, CHR 0xE6, CHR 0xE7,
        CHR 0xE8, CHR 0xE9, CHR 0xEA, CHR 0xEB, CHR 0xEC, CHR 0xED, CHR 0xEE, CHR 0xEF,
        CHR 0xF0, CHR 0xF1, CHR 0xF2, CHR 0xF3, CHR 0xF4, CHR 0xF5, CHR 0xF6, CHR 0xF8,
        CHR 0xF9, CHR 0xFA, CHR 0xFB, CHR 0xFC, CHR 0xFD, CHR 0xFE]"

definition lower_char :: "char \<Rightarrow> char" where
  "lower_char c =
     (case map_of (zip upper_letters lower_letters) c of
        Some d \<Rightarrow> d
      | None \<Rightarrow> c)"

definition lower :: "string \<Rightarrow> string" where
  "lower s = map lower_char s"

text \<open>\<open>p in s\<close> on strings: \<open>p\<close> occurs in \<open>s\<close> as a contiguous run of characters.\<close>

fun is_substring :: "'c list \<Rightarrow> 'c list \<Rightarrow> bool" where
  "is_substring p [] = (p = [])"
| "is_substring p (c # cs) = (prefix p (c # cs) \<or> is_substring p cs)"

section \<open>Knowledge base: triplets and the entity index\<close>

type_synonym triplet = "string \<times> string \<times> string"

definition subject_of :: "'a \<times> 'b \<times> 'c \<Rightarrow> 'a" where
  "subject_of t = fst t"

definition predicate_of :: "'a \<times> 'b \<times> 'c \<Rightarrow> 'b" where
  "predicate_of t = fst (snd t)"

definition object_of :: "'a \<times> 'b \<times> 'c \<Rightarrow> 'c" where
  "object_of t = snd (snd t)"

text \<open>
  The entity index is a Python \<open>dict\<close> from entity to a list of triplets. A \<open>dict\<close> keeps
  its keys in insertion order, and \<open>list(entity_index.keys())\<close> is read later, so the
  dictionary is an association list in insertion order with one pair per key.
\<close>

type_synonym entity_index = "(string \<times> triplet list) list"

text \<open>
  \<open>if k not in entity_index: entity_index[k] = []\<close> followed by
  \<open>entity_index[k].append(t)\<close>.
\<close>

fun index_append :: "string \<Rightarrow> triplet \<Rightarrow> entity_index \<Rightarrow> entity_index" where
  "index_append k t [] = [(k, [t])]"
| "index_append k t ((k', b) # rest) =
     (if k' = k then (k', b @ [t]) # rest else (k', b) # index_append k t rest)"

definition index_triplet :: "entity_index \<Rightarrow> triplet \<Rightarrow> entity_index" where
  "index_triplet idx t = index_append (object_of t) t (index_append (subject_of t) t idx)"

definition create_entity_index :: "triplet list \<Rightarrow> entity_index" where
  "create_entity_index triplets = foldl index_triplet [] triplets"

text \<open>The triplets a key collects from one triplet: once as subject, once more as object.\<close>

definition occurrences :: "string \<Rightarrow> triplet \<Rightarrow> triplet list" where
  "occurrences k t =
     (if subject_of t = k then [t] else []) @ (if object_of t = k then [t] else [])"


section \<open>Python list operations\<close>

text \<open>
  Slices never raise: a negative bound counts from the end, and every bound is clamped into
  the list. \<open>slice_to xs n\<close> is \<open>xs[:n]\<close>, \<open>slice_from xs i\<close> is \<open>xs[i:]\<close> and
  \<open>slice_between xs i j\<close> is \<open>xs[i:j]\<close>.
\<close>

definition clamp_bound :: "'a list \<Rightarrow> int \<Rightarrow> nat" where
  "clamp_bound xs i =
     (if i < 0 then nat (int (length xs) + i) else min (nat i) (length xs))"

definition slice_between :: "'a list \<Rightarrow> int \<Rightarrow> int \<Rightarrow> 'a list" where
  "slice_between xs i j = take (clamp_bound xs j - clamp_bound xs i) (drop (clamp_bound xs i) xs)"

definition slice_to :: "'a list \<Rightarrow> int \<Rightarrow> 'a list" where
  "slice_to xs n = take (clamp_bound xs n) xs"

definition slice_from :: "'a list \<Rightarrow> int \<Rightarrow> 'a list" where
  "slice_from xs i = drop (clamp_bound xs i) xs"

text \<open>
  \<open>numpy.argsort\<close> is library code. It returns the positions of a vector ordered by
  ascending value; with the default kind of sort, which the retriever uses, the order in
  which the positions of equal values come is not fixed. \<open>argsort_result v p\<close> says that
  \<open>p\<close> is a result \<open>numpy.argsort\<close> may return for \<open>v\<close>: every position of \<open>v\<close> once, the
  values in ascending order.
\<close>

definition argsort_result :: "('a::linorder) list \<Rightarrow> nat list \<Rightarrow> bool" where
  "argsort_result v p = (sort p = [0..<length v] \<and> sorted (map (\<lambda>i. v ! i) p))"

text \<open>
  One such result, where positions of equal values stay in ascending order (a stable sort).
  Functions that call \<open>numpy.argsort\<close> come in two forms: with the sorting function as an
  argument, and with this one.
\<close>

definition argsort :: "('a::linorder) list \<Rightarrow> nat list" where
  "argsort v = sort_key (\<lambda>i. v ! i) [0..<length v]"

section \<open>Knowledge retriever\<close>

text \<open>
  The retriever holds the triplet store and the entity index, both as loaded, and the fitted
  similarity index. The vectorizer and the cosine similarity are library code: \<open>score q e\<close>
  stands for the cosine similarity between the vector of the normalized query text \<open>q\<close> and
  the vector of the normalized entity text \<open>e\<close>, in any ordered field.
\<close>

record 'a retriever =
  triplets :: "triplet list"
  entity_index :: entity_index
  score :: "string \<Rightarrow> string \<Rightarrow> 'a"

definition entity_list :: "'a retriever \<Rightarrow> string list" where
  "entity_list kb = map fst (entity_index kb)"

definition replace_char :: "char \<Rightarrow> char \<Rightarrow> string \<Rightarrow> string" where
  "replace_char a b s = map (\<lambda>c. if c = a then b else c) s"

text \<open>\<open>s.lower().replace(':', ' ').replace('_', ' ')\<close>\<close>

definition normalize_entity :: "string \<Rightarrow> string" where
  "normalize_entity s = replace_char (CHR ''_'') (CHR '' '') (replace_char (CHR '':'') (CHR '' '') (lower s))"

definition similarities :: "'a retriever \<Rightarrow> string \<Rightarrow> 'a list" where
  "similarities kb query_text = map (\<lambda>e. score kb query_text (normalize_entity e)) (entity_list kb)"

text \<open>\<open>find_similar_entities\<close>, with \<open>numpy.argsort\<close> as the argument \<open>np_argsort\<close>.\<close>

definition find_similar_entities_by ::
  "(('a::linordered_field) list \<Rightarrow> nat list) \<Rightarrow> 'a retriever \<Rightarrow> string \<Rightarrow> int
     \<Rightarrow> (string \<times> 'a) list" where
  "find_similar_entities_by np_argsort kb query_entity top_k =
     (let query_text = normalize_entity query_entity;
          sims = similarities kb query_text;
          top_indices = rev (slice_from (np_argsort sims) (- top_k))
      in map (\<lambda>idx. (entity_list kb ! idx, sims ! idx))
           (filter (\<lambda>idx. sims ! idx > 3 / 10) top_indices))"

definition find_similar_entities ::
  "('a::linordered_field) retriever \<Rightarrow> string \<Rightarrow> int \<Rightarrow> (string \<times> 'a) list" where
  "find_similar_entities kb query_entity top_k =
     find_similar_entities_by argsort kb query_entity top_k"

text \<open>One pass of the loop over the similar entities in \<open>retrieve_entity_knowledge\<close>.\<close>

definition extend_with_similar ::
  "entity_index \<Rightarrow> int \<Rightarrow> nat \<Rightarrow> triplet list \<Rightarrow> string \<times> 'a \<Rightarrow> triplet list" where
  "extend_with_similar idx max_triplets n_similar retrieved_triplets similar =
     (case map_of idx (fst similar) of
        None \<Rightarrow> retrieved_triplets
      | Some bucket \<Rightarrow>
          (let remaining_slots = max_triplets - int (length retrieved_triplets)
           in if remaining_slots > 0
              then retrieved_triplets @ slice_to bucket (remaining_slots div int n_similar)
              else retrieved_triplets))"

definition retrieve_entity_knowledge ::
  "('a::linordered_field) retriever \<Rightarrow> string \<Rightarrow> int \<Rightarrow> triplet list" where
  "retrieve_entity_knowledge kb entity max_triplets =
     (let direct = (case map_of (entity_index kb) entity of
                      None \<Rightarrow> []
                    | Some bucket \<Rightarrow> slice_to bucket (max_triplets div 2));
          similar_entities = find_similar_entities kb entity 3
      in slice_to
           (foldl (extend_with_similar (entity_index kb) max_triplets (length similar_entities))
              direct similar_entities)
           max_triplets)"

text \<open>
  The body of the scan in \<open>retrieve_relationship_knowledge\<close>: two nested tests. The scan is
  written for texts over any alphabet, with \<open>str.lower\<close> as the argument \<open>str_lower\<close>.
\<close>

definition scan_triplet ::
  "('c list \<Rightarrow> 'c list) \<Rightarrow> 'c list \<Rightarrow> 'c list \<Rightarrow> 'c list
     \<Rightarrow> ('c list \<times> 'c list \<times> 'c list) list \<Rightarrow> 'c list \<times> 'c list \<times> 'c list
     \<Rightarrow> ('c list \<times> 'c list \<times> 'c list) list" where
  "scan_triplet str_lower subject predicate obj retrieved_triplets t =
     (if is_substring (str_lower predicate) (str_lower (predicate_of t))
         \<or> is_substring (str_lower (predicate_of t)) (str_lower predicate)
      then if is_substring (str_lower subject) (str_lower (subject_of t))
              \<or> is_substring (str_lower (subject_of t)) (str_lower subject)
              \<or> is_substring (str_lower obj) (str_lower (object_of t))
              \<or> is_substring (str_lower (object_of t)) (str_lower obj)
           then retrieved_triplets @ [t]
           else retrieved_triplets
      else retrieved_triplets)"

text \<open>The scan of a store \<open>self.triplets\<close>, and the slice \<open>[:5]\<close> of what it collects.\<close>

definition relationship_scan ::
  "('c list \<Rightarrow> 'c list) \<Rightarrow> ('c list \<times> 'c list \<times> 'c list) list \<Rightarrow> 'c list \<Rightarrow> 'c list \<Rightarrow> 'c list
     \<Rightarrow> ('c list \<times> 'c list \<times> 'c list) list" where
  "relationship_scan str_lower store subject predicate obj =
     slice_to (foldl (scan_triplet str_lower subject predicate obj) [] store) 5"

definition retrieve_relationship_knowledge ::
  "'a retriever \<Rightarrow> string \<Rightarrow> string \<Rightarrow> string \<Rightarrow> triplet list" where
  "retrieve_relationship_knowledge kb subject predicate obj =
     relationship_scan lower (triplets kb) subject predicate obj"

text \<open>
  The wording of the specification for the relationship query: a case-insensitive substring
  match in either direction, on the predicate and on the subject or the object.
\<close>

definition ci_substring_either :: "('c list \<Rightarrow> 'c list) \<Rightarrow> 'c list \<Rightarrow> 'c list \<Rightarrow> bool" where
  "ci_substring_either str_lower a b =
     (is_substring (str_lower a) (str_lower b) \<or> is_substring (str_lower b) (str_lower a))"

definition spec_relationship_match ::
  "('c list \<Rightarrow> 'c list) \<Rightarrow> 'c list \<Rightarrow> 'c list \<Rightarrow> 'c list \<Rightarrow> 'c list \<times> 'c list \<times> 'c list \<Rightarrow> bool" where
  "spec_relationship_match str_lower subject predicate obj t =
     (ci_substring_either str_lower predicate (predicate_of t)
      \<and> (ci_substring_either str_lower subject (subject_of t)
           \<or> ci_substring_either str_lower obj (object_of t)))"

section \<open>Result ledger\<close>

record entry =
  index :: int
  question :: string
  ground_truth :: string
  prediction :: string

text \<open>
  The ledger file: \<open>None\<close> while the file does not exist, otherwise the JSON array it holds.
\<close>

type_synonym ledger = "entry list option"

text \<open>
  The loop over \<open>enumerate(results)\<close>: the first entry with the index is overwritten and the
  loop breaks. The flag is \<open>found\<close>.
\<close>

fun replace_first :: "entry \<Rightarrow> entry list \<Rightarrow> entry list \<times> bool" where
  "replace_first result [] = ([], False)"
| "replace_first result (r # rs) =
     (if index r = index result then (result # rs, True)
      else (r # fst (replace_first result rs), snd (replace_first result rs)))"

text \<open>The block "update or append result" of \<open>format_json_out_put\<close>.\<close>

definition update_or_append :: "entry \<Rightarrow> entry list \<Rightarrow> entry list" where
  "update_or_append result results =
     (if snd (replace_first result results) then fst (replace_first result results)
      else fst (replace_first result results) @ [result])"

text \<open>\<open>list.sort\<close> is stable, as \<open>sort_key\<close> is.\<close>

definition format_json_out_put ::
  "string \<Rightarrow> string \<Rightarrow> string \<Rightarrow> int \<Rightarrow> ledger \<Rightarrow> ledger" where
  "format_json_out_put quest truth pred idx file =
     (let result = \<lparr>index = idx, question = quest, ground_truth = truth, prediction = pred\<rparr>;
          results = (case file of None \<Rightarrow> [] | Some rs \<Rightarrow> rs)
      in Some (sort_key index (update_or_append result results)))"

definition filter_finished :: "int \<Rightarrow> ledger \<Rightarrow> int list" where
  "filter_finished total_count file =
     (case file of
        None \<Rightarrow> [0..total_count - 1]
      | Some results \<Rightarrow> filter (\<lambda>i. i \<notin> index ` set results) [0..total_count - 1])"

text \<open>The ledgers the program produces: the absent file, and every ledger after a write.\<close>

inductive ledger_state :: "ledger \<Rightarrow> bool" where
  absent: "ledger_state None"
| written: "ledger_state file \<Longrightarrow> ledger_state (format_json_out_put quest truth pred idx file)"

section \<open>More string operations\<close>

definition newline :: char where
  "newline = CHR 0x0A"

text \<open>
  The white space of \<open>str.strip\<close> and \<open>str.split\<close>: the code points below 256 for which
  \<open>str.isspace\<close> holds.
\<close>

definition is_space :: "char \<Rightarrow> bool" where
  "is_space c = (c \<in> set [CHR 0x09, CHR 0x0A, CHR 0x0B, CHR 0x0C, CHR 0x0D,
                            CHR 0x1C, CHR 0x1D, CHR 0x1E, CHR 0x1F, CHR 0x20,
                            CHR 0x85, CHR 0xA0])"

definition strip :: "string \<Rightarrow> string" where
  "strip s = rev (dropWhile is_space (rev (dropWhile is_space s)))"

text \<open>\<open>s.find(p)\<close>: the position of the first occurrence of \<open>p\<close>, or \<open>-1\<close>.\<close>

fun find_at :: "string \<Rightarrow> string \<Rightarrow> int \<Rightarrow> int" where
  "find_at p [] n = (if p = [] then n else - 1)"
| "find_at p (c # cs) n = (if prefix p (c # cs) then n else find_at p cs (n + 1))"

definition find_str :: "string \<Rightarrow> string \<Rightarrow> int" where
  "find_str s p = find_at p s 0"

text \<open>\<open>s.split('\n')[0]\<close>\<close>

definition first_line :: "string \<Rightarrow> string" where
  "first_line s = takeWhile (\<lambda>c. c \<noteq> newline) s"

fun join :: "string \<Rightarrow> string list \<Rightarrow> string" where
  "join sep [] = []"
| "join sep [x] = x"
| "join sep (x # y # ys) = x @ sep @ join sep (y # ys)"

section \<open>Consensus orchestrator\<close>

text \<open>
  The prompt builders only format their arguments into a fixed text, so a prompt is the
  builder's name with its arguments, in the order the builder takes them.
\<close>

datatype prompt =
    Description string
  | Expert_consultation string string
  | Expert_opinions string string string
  | Expert_diagnosis string string string
  | Expert_evaluation string string string string
  | Expert_evaluation_followup string string string string
  | Specialists_rethink string string string
  | Diagnostic_reassessment string string string
  | Integration_summary string string string

text \<open>
  The engines, the refiner and the dataset are outside the program. Every request the program
  makes is appended to a log, and what an engine answers may depend on all earlier requests:
  an engine is a function of the log and the request, which returns the response text or
  raises.
\<close>

datatype call =
    Language_call prompt
  | Visual_call prompt string
  | Refine_call string
  | Validate_call string

datatype exn =
    Raised string
  | Unbound_local string

text \<open>\<open>str(e)\<close>\<close>

fun message :: "exn \<Rightarrow> string" where
  "message (Raised m) = m"
| "message (Unbound_local v) =
     ''cannot access local variable '' @ [CHR 0x27] @ v @ [CHR 0x27]
       @ '' where it is not associated with a value''"

record refiner =
  refine_scene_graph :: "call list \<Rightarrow> string \<Rightarrow> exn + string"
  validate_scene_graph :: "call list \<Rightarrow> string \<Rightarrow> exn + bool"

text \<open>
  The fields of \<open>SMRAgents\<close>. An item of the dataset is \<open>(img, question, answer, img_path)\<close>.
  \<open>findall_experts\<close> is \<open>re.findall\<close> with the pattern of \<open>update_specialist_opinions\<close>.
\<close>

record 'img smr_agents =
  dataset :: "int \<Rightarrow> exn + ('img \<times> string \<times> string \<times> string)"
  dataset_len :: int
  max_retries :: int
  v_engine :: "call list \<Rightarrow> prompt \<Rightarrow> 'img \<Rightarrow> string \<Rightarrow> exn + string"
  l_engine :: "call list \<Rightarrow> prompt \<Rightarrow> exn + string"
  scene_graph_refiner :: "refiner option"
  findall_experts :: "string \<Rightarrow> string list"

type_synonym 'a outcome = "(exn + 'a) \<times> call list"

definition l_response :: "'img smr_agents \<Rightarrow> prompt \<Rightarrow> call list \<Rightarrow> string outcome" where
  "l_response self p hist = (l_engine self hist p, hist @ [Language_call p])"

definition v_response ::
  "'img smr_agents \<Rightarrow> prompt \<Rightarrow> 'img \<Rightarrow> string \<Rightarrow> call list \<Rightarrow> string outcome" where
  "v_response self p img img_path hist = (v_engine self hist p img img_path, hist @ [Visual_call p img_path])"

definition generate_and_refine_scene_graph ::
  "'img smr_agents \<Rightarrow> string \<Rightarrow> 'img \<Rightarrow> string \<Rightarrow> call list \<Rightarrow> string outcome" where
  "generate_and_refine_scene_graph self quest img img_path hist =
     (case v_response self (Description quest) img img_path hist of
        (Inl e, hist1) \<Rightarrow> (Inl e, hist1)
      | (Inr initial_scene_graph, hist1) \<Rightarrow>
          (case scene_graph_refiner self of
             None \<Rightarrow> (Inr initial_scene_graph, hist1)
           | Some r \<Rightarrow>
               (case refine_scene_graph r hist1 initial_scene_graph of
                  Inl e \<Rightarrow> (Inl e, hist1 @ [Refine_call initial_scene_graph])
                | Inr refined_scene_graph \<Rightarrow>
                    (case validate_scene_graph r (hist1 @ [Refine_call initial_scene_graph])
                            refined_scene_graph of
                       Inl e \<Rightarrow>
                         (Inl e, hist1 @ [Refine_call initial_scene_graph,
                                          Validate_call refined_scene_graph])
                     | Inr is_valid \<Rightarrow>
                         (Inr (if \<not> is_valid then initial_scene_graph else refined_scene_graph),
                          hist1 @ [Refine_call initial_scene_graph,
                                  Validate_call refined_scene_graph])))))"

text \<open>The loop over the specialists in \<open>update_specialist_opinions\<close>.\<close>

fun update_loop ::
  "'img smr_agents \<Rightarrow> string \<Rightarrow> string \<Rightarrow> string \<Rightarrow> string list \<Rightarrow> string list \<Rightarrow> call list
     \<Rightarrow> (string list) outcome" where
  "update_loop self quest description feedback [] updated_opinions_list hist =
     (Inr updated_opinions_list, hist)"
| "update_loop self quest description feedback (specialist_text # rest) updated_opinions_list hist =
     (let specialist_name = strip (first_line specialist_text)
      in if is_substring specialist_name feedback
         then (case l_response self (Specialists_rethink quest description feedback) hist of
                 (Inl e, hist1) \<Rightarrow> (Inl e, hist1)
               | (Inr updated_opinion, hist1) \<Rightarrow>
                   update_loop self quest description feedback rest
                     (updated_opinions_list
                        @ [''Expert: '' @ specialist_name @ [newline] @ updated_opinion]) hist1)
         else update_loop self quest description feedback rest
                (updated_opinions_list @ [''Expert: '' @ specialist_text]) hist)"

definition update_specialist_opinions ::
  "'img smr_agents \<Rightarrow> string \<Rightarrow> string \<Rightarrow> string \<Rightarrow> string \<Rightarrow> call list \<Rightarrow> string outcome" where
  "update_specialist_opinions self quest description current_opinions feedback hist =
     (case update_loop self quest description feedback
             (findall_experts self current_opinions) [] hist of
        (Inl e, hist1) \<Rightarrow> (Inl e, hist1)
      | (Inr updated_opinions_list, hist1) \<Rightarrow>
          (Inr (join [newline, newline] updated_opinions_list), hist1))"

text \<open>The part of \<open>process_feedback_iteration\<close> under "process specialist feedback".\<close>

definition process_specialist_feedback ::
  "'img smr_agents \<Rightarrow> string \<Rightarrow> string \<Rightarrow> string \<Rightarrow> string \<Rightarrow> call list \<Rightarrow> string outcome" where
  "process_specialist_feedback self quest description experts_opinions expert_evaluation hist =
     (if is_substring ''Feedback to Specialist Experts:'' expert_evaluation
      then (let feedback_start = find_str expert_evaluation ''Feedback to Specialist Experts:'';
                found_end = find_str expert_evaluation ''Feedback to Diagnostic Specialist:'';
                feedback_end = (if found_end = - 1 then int (length expert_evaluation) else found_end);
                feedback_to_specialists =
                  strip (slice_between expert_evaluation feedback_start feedback_end)
            in if feedback_to_specialists \<noteq> []
               then update_specialist_opinions self quest description experts_opinions
                      feedback_to_specialists hist
               else (Inr experts_opinions, hist))
      else (Inr experts_opinions, hist))"

definition process_feedback_iteration ::
  "'img smr_agents \<Rightarrow> string \<Rightarrow> string \<Rightarrow> string \<Rightarrow> string \<Rightarrow> nat \<Rightarrow> call list
     \<Rightarrow> (string \<times> string \<times> bool) outcome" where
  "process_feedback_iteration self quest description experts_opinions expert_diagnosis iteration hist =
     (case l_response self
             (if iteration = 0
              then Expert_evaluation quest description expert_diagnosis experts_opinions
              else Expert_evaluation_followup quest description experts_opinions expert_diagnosis)
             hist of
        (Inl e, hist1) \<Rightarrow> (Inl e, hist1)
      | (Inr expert_evaluation, hist1) \<Rightarrow>
          if is_substring ''all opinions are consistent'' (lower expert_evaluation)
          then (Inr (experts_opinions, expert_diagnosis, False), hist1)
          else (case process_specialist_feedback self quest description experts_opinions
                       expert_evaluation hist1 of
                  (Inl e, hist2) \<Rightarrow> (Inl e, hist2)
                | (Inr experts_opinions', hist2) \<Rightarrow>
                    if is_substring ''Feedback to Diagnostic Specialist:'' expert_evaluation
                    then (case l_response self
                                 (Diagnostic_reassessment quest description experts_opinions') hist2 of
                            (Inl e, hist3) \<Rightarrow> (Inl e, hist3)
                          | (Inr expert_diagnosis', hist3) \<Rightarrow>
                              (Inr (experts_opinions', expert_diagnosis', True), hist3))
                    else (Inr (experts_opinions', expert_diagnosis, True), hist2)))"

definition max_iterations :: nat where
  "max_iterations = 3"

text \<open>
  Step 5 of \<open>run\<close>: the loop \<open>for iteration in range(max_iterations)\<close> with its \<open>break\<close>, over
  the iterations still to run.
\<close>

fun feedback_loop ::
  "'img smr_agents \<Rightarrow> string \<Rightarrow> string \<Rightarrow> string \<Rightarrow> string \<Rightarrow> nat list \<Rightarrow> call list
     \<Rightarrow> (string \<times> string) outcome" where
  "feedback_loop self quest description experts_opinions expert_diagnosis [] hist =
     (Inr (experts_opinions, expert_diagnosis), hist)"
| "feedback_loop self quest description experts_opinions expert_diagnosis (iteration # rest) hist =
     (case process_feedback_iteration self quest description experts_opinions expert_diagnosis
             iteration hist of
        (Inl e, hist1) \<Rightarrow> (Inl e, hist1)
      | (Inr (experts_opinions', expert_diagnosis', should_continue), hist1) \<Rightarrow>
          if \<not> should_continue then (Inr (experts_opinions', expert_diagnosis'), hist1)
          else feedback_loop self quest description experts_opinions' expert_diagnosis' rest hist1)"

text \<open>Steps 5 and 6 of \<open>run\<close>: the feedback loop, then the integration summary.\<close>

definition review_and_integrate ::
  "'img smr_agents \<Rightarrow> string \<Rightarrow> string \<Rightarrow> string \<Rightarrow> string \<Rightarrow> call list \<Rightarrow> string outcome" where
  "review_and_integrate self quest description experts_opinions expert_diagnosis hist =
     (case feedback_loop self quest description experts_opinions expert_diagnosis
             [0..<max_iterations] hist of
        (Inl e, hist1) \<Rightarrow> (Inl e, hist1)
      | (Inr (experts_opinions', expert_diagnosis'), hist1) \<Rightarrow>
          l_response self
            (Integration_summary quest description
               (experts_opinions' @ [newline, newline] @ expert_diagnosis')) hist1)"

text \<open>Steps 1 to 6 of \<open>run\<close> for one item, up to the final answer.\<close>

definition answer_question ::
  "'img smr_agents \<Rightarrow> 'img \<Rightarrow> string \<Rightarrow> string \<Rightarrow> call list \<Rightarrow> string outcome" where
  "answer_question self img quest img_path hist =
     (case generate_and_refine_scene_graph self quest img img_path hist of
        (Inl e, hist1) \<Rightarrow> (Inl e, hist1)
      | (Inr description, hist1) \<Rightarrow>
          (case l_response self (Expert_consultation quest description) hist1 of
             (Inl e, hist2) \<Rightarrow> (Inl e, hist2)
           | (Inr expert_consultation, hist2) \<Rightarrow>
               (case l_response self (Expert_opinions quest description expert_consultation) hist2 of
                  (Inl e, hist3) \<Rightarrow> (Inl e, hist3)
                | (Inr experts_opinions, hist3) \<Rightarrow>
                    (case l_response self (Expert_diagnosis quest description experts_opinions) hist3 of
                       (Inl e, hist4) \<Rightarrow> (Inl e, hist4)
                     | (Inr expert_diagnosis, hist4) \<Rightarrow>
                         review_and_integrate self quest description experts_opinions
                           expert_diagnosis hist4))))"

text \<open>
  The state of \<open>run\<close>: its local variables \<open>question\<close> and \<open>answer\<close>, which are unbound until
  the first item has been read and keep their values from one item to the next, the ledger
  file and the log of requests.
\<close>

record run_state =
  question_var :: "string option"
  answer_var :: "string option"
  ledger_file :: ledger
  calls :: "call list"

text \<open>
  The \<open>except Exception\<close> block. It reads \<open>question\<close> and \<open>answer\<close>; reading an unbound
  local raises, and nothing catches that.
\<close>

definition save_error_result :: "exn \<Rightarrow> int \<Rightarrow> run_state \<Rightarrow> exn + run_state" where
  "save_error_result e idx st =
     (case question_var st of
        None \<Rightarrow> Inl (Unbound_local ''question'')
      | Some quest \<Rightarrow>
          (case answer_var st of
             None \<Rightarrow> Inl (Unbound_local ''answer'')
           | Some ans \<Rightarrow>
               Inr (st\<lparr>ledger_file :=
                      format_json_out_put quest ans (''Error: '' @ message e) idx (ledger_file st)\<rparr>)))"

text \<open>The body of the loop over the to-do list: the \<open>try\<close> block and its handler.\<close>

definition process_item :: "'img smr_agents \<Rightarrow> int \<Rightarrow> run_state \<Rightarrow> exn + run_state" where
  "process_item self idx st =
     (case dataset self idx of
        Inl e \<Rightarrow> save_error_result e idx st
      | Inr (img, quest, ans, img_path) \<Rightarrow>
          (let st1 = st\<lparr>question_var := Some quest, answer_var := Some ans\<rparr>
           in case answer_question self img quest img_path (calls st1) of
                (Inl e, hist1) \<Rightarrow> save_error_result e idx (st1\<lparr>calls := hist1\<rparr>)
              | (Inr final_answer, hist1) \<Rightarrow>
                  Inr (st1\<lparr>calls := hist1,
                           ledger_file :=
                             format_json_out_put quest ans final_answer idx (ledger_file st1)\<rparr>)))"

fun process_items :: "'img smr_agents \<Rightarrow> int list \<Rightarrow> run_state \<Rightarrow> exn + run_state" where
  "process_items self [] st = Inr st"
| "process_items self (idx # todo_list) st =
     (case process_item self idx st of
        Inl e \<Rightarrow> Inl e
      | Inr st1 \<Rightarrow> process_items self todo_list st1)"

text \<open>The rounds of \<open>run\<close>, over the rounds still to run.\<close>

fun run_rounds :: "'img smr_agents \<Rightarrow> nat \<Rightarrow> run_state \<Rightarrow> exn + run_state" where
  "run_rounds self 0 st = Inr st"
| "run_rounds self (Suc rounds) st =
     (let todo_list = filter_finished (dataset_len self) (ledger_file st)
      in if todo_list = [] then Inr st
         else (case process_items self todo_list st of
                 Inl e \<Rightarrow> Inl e
               | Inr st1 \<Rightarrow> run_rounds self rounds st1))"

definition initial_state :: "ledger \<Rightarrow> run_state" where
  "initial_state file = \<lparr>question_var = None, answer_var = None, ledger_file = file, calls = []\<rparr>"

definition run :: "'img smr_agents \<Rightarrow> ledger \<Rightarrow> exn + run_state" where
  "run self file = run_rounds self (nat (max_retries self)) (initial_state file)"

text \<open>A review pass is one evaluation request to the language engine.\<close>

fun is_review_call :: "call \<Rightarrow> bool" where
  "is_review_call (Language_call (Expert_evaluation q d diag ops)) = True"
| "is_review_call (Language_call (Expert_evaluation_followup q d ops diag)) = True"
| "is_review_call c = False"

section \<open>Similarity index\<close>

text \<open>
  Modelled from the spec: the similarity index. The retriever builds it with scikit-learn's
  \<open>TfidfVectorizer\<close> and \<open>cosine_similarity\<close>, library code outside the repository; the
  specification describes it as character n-grams of length 3 to 5 over the normalized entity
  keys, weighted by term frequency and inverse document frequency, with a capped vocabulary,
  and compared by cosine similarity. The settings are those the source passes to the
  vectorizer (\<open>analyzer='char_wb'\<close>, \<open>ngram_range=(3, 5)\<close>, \<open>lowercase=True\<close>,
  \<open>max_features=5000\<close>), the rest being the library's defaults. Weights are real numbers.
\<close>

text \<open>\<open>str.split()\<close>: the maximal runs of characters that are not white space.\<close>

fun split_at_spaces :: "string \<Rightarrow> string \<Rightarrow> string list" where
  "split_at_spaces word [] = (if word = [] then [] else [word])"
| "split_at_spaces word (c # cs) =
     (if is_space c then (if word = [] then split_at_spaces [] cs else word # split_at_spaces [] cs)
      else split_at_spaces (word @ [c]) cs)"

definition split_words :: "string \<Rightarrow> string list" where
  "split_words s = split_at_spaces [] s"

text \<open>
  The analyzer \<open>char_wb\<close> with \<open>ngram_range=(3, 5)\<close> and \<open>lowercase=True\<close>: the text is
  lower-cased and split into words, every word is padded with one space on each side, and for
  \<open>n\<close> from 3 to 5 every run of \<open>n\<close> characters of the padded word is an n-gram; a padded
  word of at most \<open>n\<close> characters is taken once, whole, and no longer n-gram is taken of it.
\<close>

fun word_ngrams :: "nat list \<Rightarrow> string \<Rightarrow> string list" where
  "word_ngrams [] w = []"
| "word_ngrams (n # ns) w =
     (if length w \<le> n then [take n w]
      else map (\<lambda>offset. take n (drop offset w)) [0..<length w - n + 1] @ word_ngrams ns w)"

definition char_wb_ngrams :: "string \<Rightarrow> string list" where
  "char_wb_ngrams text =
     concat (map (\<lambda>w. word_ngrams [3, 4, 5] ([CHR '' ''] @ w @ [CHR '' ''])) (split_words (lower text)))"

text \<open>
  The vocabulary is the n-grams of all entity texts, capped to the \<open>max_features\<close> n-grams
  of highest count over the corpus.
\<close>

definition max_features :: nat where
  "max_features = 5000"

definition corpus_count :: "string list \<Rightarrow> string \<Rightarrow> nat" where
  "corpus_count corpus t = count_list (concat (map char_wb_ngrams corpus)) t"

definition vocabulary :: "string list \<Rightarrow> string list" where
  "vocabulary corpus =
     (let terms = remdups (concat (map char_wb_ngrams corpus))
      in if length terms \<le> max_features then terms
         else take max_features (rev (sort_key (corpus_count corpus) terms)))"

text \<open>
  Term frequency times smoothed inverse document frequency, over the vocabulary only (an
  n-gram of a query outside the vocabulary has no coordinate), each vector scaled to
  Euclidean length one; a zero vector stays zero.
\<close>

definition document_frequency :: "string list \<Rightarrow> string \<Rightarrow> nat" where
  "document_frequency corpus t = length (filter (\<lambda>d. t \<in> set (char_wb_ngrams d)) corpus)"

definition idf :: "string list \<Rightarrow> string \<Rightarrow> real" where
  "idf corpus t = ln ((1 + real (length corpus)) / (1 + real (document_frequency corpus t))) + 1"

definition dot :: "real list \<Rightarrow> real list \<Rightarrow> real" where
  "dot u v = sum_list (map2 (*) u v)"

definition l2_normalize :: "real list \<Rightarrow> real list" where
  "l2_normalize v = (if sqrt (dot v v) = 0 then v else map (\<lambda>x. x / sqrt (dot v v)) v)"

definition tfidf_weights :: "string list \<Rightarrow> string \<Rightarrow> real list" where
  "tfidf_weights corpus text =
     map (\<lambda>t. real (count_list (char_wb_ngrams text) t) * idf corpus t) (vocabulary corpus)"

definition tfidf_vector :: "string list \<Rightarrow> string \<Rightarrow> real list" where
  "tfidf_vector corpus text = l2_normalize (tfidf_weights corpus text)"

definition cosine_similarity :: "real list \<Rightarrow> real list \<Rightarrow> real" where
  "cosine_similarity x y = dot (l2_normalize x) (l2_normalize y)"

definition tfidf_cosine :: "string list \<Rightarrow> string \<Rightarrow> string \<Rightarrow> real" where
  "tfidf_cosine corpus query_text entity_text =
     cosine_similarity (tfidf_vector corpus query_text) (tfidf_vector corpus entity_text)"

text \<open>
  \<open>KnowledgeBaseRetriever.__init__\<close>: the triplets and the index as loaded, and the
  vectorizer fitted on the normalized keys of the index in key order.
\<close>

definition build_retriever :: "triplet list \<Rightarrow> entity_index \<Rightarrow> real retriever" where
  "build_retriever ts idx =
     \<lparr>triplets = ts, entity_index = idx,
      score = tfidf_cosine (map (\<lambda>e. normalize_entity e) (map fst idx))\<rparr>"

text \<open>The concrete scenario of the specification: a store of two triplets.\<close>

definition scenario_triplets :: "triplet list" where
  "scenario_triplets =
     [(''lung nodule'', ''located_in'', ''right lung''), (''lung nodule'', ''has_size'', ''2cm'')]"

definition scenario_texts :: "string list" where
  "scenario_texts = [''lung nodule'', ''right lung'', ''2cm'']"

section \<open>The entity index\<close>

lemma map_of_index_append:
  "map_of (index_append k t idx) k' =
     (if k' = k then Some ((case map_of idx k of None \<Rightarrow> [] | Some b \<Rightarrow> b) @ [t])
      else map_of idx k')"
  by (induction idx) auto

lemma keys_index_append:
  "map fst (index_append k t idx) = (if k \<in> fst ` set idx then map fst idx else map fst idx @ [k])"
  by (induction idx) force+

lemma distinct_index_append:
  "distinct (map fst idx) \<Longrightarrow> distinct (map fst (index_append k t idx))"
  by (simp add: keys_index_append)
lemma map_of_index_triplet:
  "map_of (index_triplet idx t) k =
     (if occurrences k t = [] then map_of idx k
      else Some ((case map_of idx k of None \<Rightarrow> [] | Some b \<Rightarrow> b) @ occurrences k t))"
  by (simp add: index_triplet_def map_of_index_append occurrences_def)

lemma map_of_foldl_index_triplet:
  "map_of (foldl index_triplet idx ts) k =
     (if concat (map (occurrences k) ts) = [] then map_of idx k
      else Some ((case map_of idx k of None \<Rightarrow> [] | Some b \<Rightarrow> b) @ concat (map (occurrences k) ts)))"
proof (induction ts arbitrary: idx)
  case Nil
  show ?case by simp
next
  case (Cons t ts)
  show ?case
    by (simp add: Cons.IH map_of_index_triplet)
qed

lemma distinct_foldl_index_triplet:
  "distinct (map fst idx) \<Longrightarrow> distinct (map fst (foldl index_triplet idx ts))"
  by (induction ts arbitrary: idx) (simp_all add: index_triplet_def distinct_index_append)

lemma map_of_create_entity_index:
  "map_of (create_entity_index ts) k =
     (if concat (map (occurrences k) ts) = [] then None else Some (concat (map (occurrences k) ts)))"
  by (simp add: create_entity_index_def map_of_foldl_index_triplet)

lemma set_concat_occurrences:
  "set (concat (map (occurrences k) ts)) = {t \<in> set ts. subject_of t = k \<or> object_of t = k}"
  by (induction ts) (auto simp: occurrences_def)

lemma occurrences_filter:
  "\<forall>t\<in>set ts. subject_of t \<noteq> object_of t \<Longrightarrow>
   concat (map (occurrences k) ts) = filter (\<lambda>t. subject_of t = k \<or> object_of t = k) ts"
  by (induction ts) (auto simp: occurrences_def)

lemma bucket_member:
  assumes "t \<in> set (concat (map (occurrences k) ts))"
  shows "\<exists>b. map_of (create_entity_index ts) k = Some b \<and> t \<in> set b"
proof -
  have ne: "concat (map (occurrences k) ts) \<noteq> []"
  proof
    assume e: "concat (map (occurrences k) ts) = []"
    from assms show False unfolding e by simp
  qed
  have "map_of (create_entity_index ts) k = Some (concat (map (occurrences k) ts))"
    unfolding map_of_create_entity_index using ne by (simp only: if_False)
  with assms show ?thesis by blast
qed

lemma bucket_is_occurrences:
  "map_of (create_entity_index ts) k = Some b \<Longrightarrow> b = concat (map (occurrences k) ts)"
  unfolding map_of_create_entity_index by (simp split: if_splits)

text \<open>
  Claim C7, as amended. In the index built by \<open>create_entity_index\<close> the keys are distinct;
  a triplet of the store is in the bucket of its subject and in the bucket of its object, and
  in the bucket of no other key (so under two keys when subject and object differ, and under
  one key when they are the same string). The bucket of a key lists, in store order, the
  triplets having the key as subject or as object, a triplet having it as both being listed
  twice; when no triplet has its subject equal to its object, the bucket is the sublist of the
  store with the key at either end.
\<close>

theorem create_entity_index_buckets:
  "distinct (map fst (create_entity_index ts))
   \<and> (t \<in> set ts \<longrightarrow>
        (\<exists>b. map_of (create_entity_index ts) (subject_of t) = Some b \<and> t \<in> set b)
        \<and> (\<exists>b. map_of (create_entity_index ts) (object_of t) = Some b \<and> t \<in> set b)
        \<and> (\<forall>k b. map_of (create_entity_index ts) k = Some b \<and> t \<in> set b
               \<longrightarrow> k = subject_of t \<or> k = object_of t))
   \<and> (map_of (create_entity_index ts) k = Some b \<longrightarrow> b = concat (map (occurrences k) ts))
   \<and> ((\<forall>t\<in>set ts. subject_of t \<noteq> object_of t) \<and> map_of (create_entity_index ts) k = Some b
        \<longrightarrow> b = filter (\<lambda>t. subject_of t = k \<or> object_of t = k) ts)"
proof -
  have d: "distinct (map fst (create_entity_index ts))"
    unfolding create_entity_index_def by (rule distinct_foldl_index_triplet) simp
  have a: "\<exists>b. map_of (create_entity_index ts) (subject_of t) = Some b \<and> t \<in> set b"
    if "t \<in> set ts"
    using that by (intro bucket_member) (simp only: set_concat_occurrences, simp)
  have b: "\<exists>b. map_of (create_entity_index ts) (object_of t) = Some b \<and> t \<in> set b"
    if "t \<in> set ts"
    using that by (intro bucket_member) (simp only: set_concat_occurrences, simp)
  have c: "k = subject_of t \<or> k = object_of t"
    if "map_of (create_entity_index ts) k = Some b \<and> t \<in> set b" for k b
  proof -
    from that have "t \<in> set (concat (map (occurrences k) ts))"
      using bucket_is_occurrences by blast
    then show ?thesis unfolding set_concat_occurrences by blast
  qed
  have e: "b = concat (map (occurrences k) ts)" if "map_of (create_entity_index ts) k = Some b"
    using that by (rule bucket_is_occurrences)
  have f: "b = filter (\<lambda>t. subject_of t = k \<or> object_of t = k) ts"
    if "\<forall>t\<in>set ts. subject_of t \<noteq> object_of t" "map_of (create_entity_index ts) k = Some b"
    using that e occurrences_filter by simp
  from d a b c e f show ?thesis by blast
qed

theorem create_entity_index_buckets_witness:
  "(''lung nodule'', ''located_in'', ''right lung'')
      \<in> set [(''lung nodule'', ''located_in'', ''right lung''), (''lung nodule'', ''has_size'', ''2cm'')]
   \<and> map_of (create_entity_index
        [(''lung nodule'', ''located_in'', ''right lung''), (''lung nodule'', ''has_size'', ''2cm'')])
        ''lung nodule''
      = Some [(''lung nodule'', ''located_in'', ''right lung''), (''lung nodule'', ''has_size'', ''2cm'')]
   \<and> map_of (create_entity_index
        [(''lung nodule'', ''located_in'', ''right lung''), (''lung nodule'', ''has_size'', ''2cm'')])
        ''right lung''
      = Some [(''lung nodule'', ''located_in'', ''right lung'')]
   \<and> distinct (map fst (create_entity_index
        [(''lung nodule'', ''located_in'', ''right lung''), (''lung nodule'', ''has_size'', ''2cm'')]))"
  using create_entity_index_buckets
    [of "[(''lung nodule'', ''located_in'', ''right lung''), (''lung nodule'', ''has_size'', ''2cm'')]"
        "(''lung nodule'', ''located_in'', ''right lung'')" "''lung nodule''"
        "[(''lung nodule'', ''located_in'', ''right lung''), (''lung nodule'', ''has_size'', ''2cm'')]"]
  by (simp add: create_entity_index_def index_triplet_def subject_of_def object_of_def occurrences_def)

text \<open>
  Claim C7 as stated fails on a triplet whose subject and object are the same string: it is
  filed under one key, not two, and that bucket holds it twice.
\<close>

theorem create_entity_index_same_ends_counterexample:
  "create_entity_index [(''a'', ''p'', ''a'')] = [(''a'', [(''a'', ''p'', ''a''), (''a'', ''p'', ''a'')])]
   \<and> map fst (filter (\<lambda>kb. (''a'', ''p'', ''a'') \<in> set (snd kb)) (create_entity_index [(''a'', ''p'', ''a'')]))
       = [''a'']"
  by (simp add: create_entity_index_def index_triplet_def subject_of_def object_of_def)

section \<open>The result ledger\<close>

lemma replace_first_indices:
  "map index (fst (replace_first r rs)) = map index rs"
  by (induction rs) auto

lemma replace_first_found:
  "snd (replace_first r rs) \<longleftrightarrow> index r \<in> index ` set rs"
  by (induction rs) auto

lemma replace_first_filter:
  "distinct (map index rs) \<Longrightarrow>
   filter (\<lambda>e. index e = index r) (fst (replace_first r rs))
     = (if index r \<in> index ` set rs then [r] else [])"
proof (induction rs)
  case Nil
  show ?case by simp
next
  case (Cons x rs)
  show ?case
  proof (cases "index x = index r")
    case True
    with Cons.prems have "index r \<notin> index ` set rs" by auto
    then have "\<forall>e\<in>set rs. index e \<noteq> index r" by (metis imageI)
    then have "filter (\<lambda>e. index e = index r) rs = []"
      by (simp add: filter_empty_conv)
    with True show ?thesis by simp
  next
    case False
    with Cons show ?thesis by auto
  qed
qed

lemma distinct_map_insort_key:
  "distinct (map f (insort_key f x xs)) \<longleftrightarrow> f x \<notin> f ` set xs \<and> distinct (map f xs)"
  by (induction xs) (auto simp: set_insort_key)

lemma distinct_map_sort_key:
  "distinct (map f (sort_key f xs)) \<longleftrightarrow> distinct (map f xs)"
  by (induction xs) (auto simp: distinct_map_insort_key)

lemma format_json_out_put_update_or_append:
  "format_json_out_put q g p i file =
     Some (sort_key index (update_or_append \<lparr>index = i, question = q, ground_truth = g, prediction = p\<rparr>
        (case file of None \<Rightarrow> [] | Some rs \<Rightarrow> rs)))"
  by (simp add: format_json_out_put_def update_or_append_def Let_def)

lemma update_or_append_distinct:
  "distinct (map index rs) \<Longrightarrow> distinct (map index (update_or_append r rs))"
  by (auto simp: update_or_append_def replace_first_indices replace_first_found)

lemma update_or_append_filter:
  "distinct (map index rs) \<Longrightarrow> filter (\<lambda>e. index e = index r) (update_or_append r rs) = [r]"
  by (auto simp: update_or_append_def replace_first_filter replace_first_found)

lemma ledger_state_distinct:
  "ledger_state file \<Longrightarrow> distinct (map index (case file of None \<Rightarrow> [] | Some rs \<Rightarrow> rs))"
proof (induction rule: ledger_state.induct)
  case absent
  show ?case by simp
next
  case (written f quest truth pred idx)
  then show ?case
    by (simp add: format_json_out_put_update_or_append distinct_map_sort_key update_or_append_distinct)
qed

text \<open>
  Claim C8. From every ledger the program produces, two writes for the same index leave
  exactly one entry for that index, the one of the second write, and the stored array is
  sorted ascending by index after each of the two writes.
\<close>

theorem format_json_out_put_twice:
  assumes "ledger_state file"
  shows "\<exists>rs1 rs2.
      format_json_out_put q1 g1 p1 i file = Some rs1
    \<and> format_json_out_put q2 g2 p2 i (Some rs1) = Some rs2
    \<and> filter (\<lambda>e. index e = i) rs2
        = [\<lparr>index = i, question = q2, ground_truth = g2, prediction = p2\<rparr>]
    \<and> sorted (map index rs1) \<and> sorted (map index rs2)"
proof -
  define r1 where "r1 = \<lparr>index = i, question = q1, ground_truth = g1, prediction = p1\<rparr>"
  define r2 where "r2 = \<lparr>index = i, question = q2, ground_truth = g2, prediction = p2\<rparr>"
  define rs0 where "rs0 = (case file of None \<Rightarrow> [] | Some rs \<Rightarrow> rs)"
  define rs1 where "rs1 = sort_key index (update_or_append r1 rs0)"
  define rs2 where "rs2 = sort_key index (update_or_append r2 rs1)"
  have d0: "distinct (map index rs0)"
    unfolding rs0_def using assms by (rule ledger_state_distinct)
  have d1: "distinct (map index rs1)"
    unfolding rs1_def by (simp add: distinct_map_sort_key update_or_append_distinct d0)
  have f1: "format_json_out_put q1 g1 p1 i file = Some rs1"
    by (simp add: format_json_out_put_update_or_append rs1_def r1_def rs0_def)
  have f2: "format_json_out_put q2 g2 p2 i (Some rs1) = Some rs2"
    by (simp add: format_json_out_put_update_or_append rs2_def r2_def)
  have "filter (\<lambda>e. index e = index r2) (update_or_append r2 rs1) = [r2]"
    using d1 by (rule update_or_append_filter)
  then have "filter (\<lambda>e. index e = i) rs2 = [r2]"
    unfolding rs2_def by (simp add: filter_sort r2_def)
  moreover have "sorted (map index rs1)" "sorted (map index rs2)"
    unfolding rs1_def rs2_def by simp_all
  ultimately show ?thesis using f1 f2 unfolding r2_def by blast
qed

theorem format_json_out_put_twice_witness:
  "ledger_state (format_json_out_put ''q0'' ''yes'' ''no'' 2 None)
   \<and> (\<exists>rs1 rs2.
      format_json_out_put ''q1'' ''yes'' ''Error: timeout'' 1
         (format_json_out_put ''q0'' ''yes'' ''no'' 2 None) = Some rs1
    \<and> format_json_out_put ''q1'' ''yes'' ''yes'' 1 (Some rs1) = Some rs2
    \<and> filter (\<lambda>e. index e = 1) rs2
        = [\<lparr>index = 1, question = ''q1'', ground_truth = ''yes'', prediction = ''yes''\<rparr>]
    \<and> sorted (map index rs1) \<and> sorted (map index rs2))"
proof -
  have h: "ledger_state (format_json_out_put ''q0'' ''yes'' ''no'' 2 None)"
    by (intro ledger_state.intros)
  show ?thesis
    using h format_json_out_put_twice [OF h, of "''q1''" "''yes''" "''Error: timeout''" 1 "''q1''" "''yes''" "''yes''"]
    by simp
qed

section \<open>Retrieval\<close>

lemma foldl_scan_triplet:
  "foldl (scan_triplet str_lower s p ob) acc ts
     = acc @ filter (spec_relationship_match str_lower s p ob) ts"
  by (induction ts arbitrary: acc)
     (simp_all add: scan_triplet_def spec_relationship_match_def ci_substring_either_def)

lemma slice_to_nonneg: "0 \<le> n \<Longrightarrow> slice_to xs n = take (nat n) xs"
  by (simp add: slice_to_def clamp_bound_def min_def)

text \<open>
  Claim C9. The relationship scan returns the first five, or all if fewer, of the triplets of
  the store, in store order, whose predicate matches the query predicate and whose subject
  matches the query subject or whose object matches the query object, a match being a
  substring in either direction after \<open>str.lower\<close> on both texts. This holds over every
  alphabet and for whatever \<open>str.lower\<close> does to a text, and so for
  \<open>retrieve_relationship_knowledge\<close> on every retriever and query.
\<close>

theorem retrieve_relationship_knowledge_first_five:
  "relationship_scan str_lower store subject predicate obj
     = take 5 (filter (spec_relationship_match str_lower subject predicate obj) store)
   \<and> retrieve_relationship_knowledge kb subject' predicate' obj'
     = take 5 (filter (spec_relationship_match lower subject' predicate' obj') (triplets kb))"
  by (simp add: retrieve_relationship_knowledge_def relationship_scan_def foldl_scan_triplet
      slice_to_nonneg)

text \<open>
  Claim C5. For every entity and every \<open>n \<ge> 0\<close>, \<open>retrieve_entity_knowledge\<close> returns at
  most \<open>n\<close> triplets.
\<close>

theorem retrieve_entity_knowledge_budget:
  "0 \<le> n \<Longrightarrow> length (retrieve_entity_knowledge kb e n) \<le> nat n"
  by (simp add: retrieve_entity_knowledge_def Let_def slice_to_nonneg)

theorem retrieve_entity_knowledge_budget_witness:
  "(0::int) \<le> 1
   \<and> length (retrieve_entity_knowledge
        \<lparr>triplets = [(''lung nodule'', ''located_in'', ''right lung''), (''lung nodule'', ''has_size'', ''2cm'')],
         entity_index = create_entity_index
            [(''lung nodule'', ''located_in'', ''right lung''), (''lung nodule'', ''has_size'', ''2cm'')],
         score = (\<lambda>q e. if q = e then (1::rat) else 0)\<rparr> ''lung nodule'' 1) \<le> nat 1"
proof -
  have h: "(0::int) \<le> 1" by simp
  show ?thesis using h retrieve_entity_knowledge_budget [OF h] by simp
qed

section \<open>Similar entities\<close>

lemma slice_from_zero: "slice_from xs 0 = xs"
  by (simp add: slice_from_def clamp_bound_def)

lemma length_similarities: "length (similarities kb q) = length (entity_list kb)"
  by (simp add: similarities_def)

lemma mset_argsort: "mset (argsort v) = mset [0..<length v]"
  by (simp add: argsort_def)

lemma set_argsort: "set (argsort v) = {0..<length v}"
  by (simp add: argsort_def)

lemma length_argsort: "length (argsort v) = length v"
  by (simp add: argsort_def)

lemma scored_entities:
  "map (\<lambda>idx. (entity_list kb ! idx, similarities kb q ! idx)) [0..<length (entity_list kb)]
     = map (\<lambda>e. (e, score kb q (normalize_entity e))) (entity_list kb)"
  by (rule nth_equalityI) (simp_all add: similarities_def)

text \<open>
  Claim C10. With \<open>top_k = 0\<close> the slice \<open>[-0:]\<close> is the whole array:
  \<open>find_similar_entities\<close> returns every indexed entity whose similarity exceeds 0.3, each
  once with its similarity, so the result is not empty whenever an entity clears the
  threshold.
\<close>

theorem find_similar_entities_top_k_zero:
  "mset (find_similar_entities kb query 0)
     = mset (filter (\<lambda>es. 3 / 10 < snd es)
         (map (\<lambda>e. (e, score kb (normalize_entity query) (normalize_entity e))) (entity_list kb)))
   \<and> ((\<exists>e\<in>set (entity_list kb). 3 / 10 < score kb (normalize_entity query) (normalize_entity e))
        \<longrightarrow> find_similar_entities kb query 0 \<noteq> [])"
proof -
  define q where "q = normalize_entity query"
  define sims where "sims = similarities kb q"
  define g where "g = (\<lambda>idx. (entity_list kb ! idx, sims ! idx))"
  have n: "length sims = length (entity_list kb)"
    by (simp add: sims_def length_similarities)
  have r: "find_similar_entities kb query 0
      = map g (filter (\<lambda>idx. 3 / 10 < sims ! idx) (rev (argsort sims)))"
    by (simp add: find_similar_entities_def find_similar_entities_by_def Let_def slice_from_zero q_def sims_def g_def)
  have "mset (map g (filter (\<lambda>idx. 3 / 10 < sims ! idx) (rev (argsort sims))))
      = mset (map g (filter (\<lambda>idx. 3 / 10 < sims ! idx) [0..<length sims]))"
    by (simp add: mset_argsort)
  also have "map g (filter (\<lambda>idx. 3 / 10 < sims ! idx) [0..<length sims])
      = filter (\<lambda>es. 3 / 10 < snd es) (map g [0..<length sims])"
    by (simp add: filter_map o_def g_def)
  also have "map g [0..<length sims]
      = map (\<lambda>e. (e, score kb q (normalize_entity e))) (entity_list kb)"
    using scored_entities [of kb q] by (simp add: g_def sims_def length_similarities)
  finally have m: "mset (find_similar_entities kb query 0)
     = mset (filter (\<lambda>es. 3 / 10 < snd es)
         (map (\<lambda>e. (e, score kb q (normalize_entity e))) (entity_list kb)))"
    unfolding r .
  have "find_similar_entities kb query 0 \<noteq> []"
    if "\<exists>e\<in>set (entity_list kb). 3 / 10 < score kb q (normalize_entity e)"
  proof -
    from that obtain e where e: "e \<in> set (entity_list kb)" "3 / 10 < score kb q (normalize_entity e)"
      by blast
    then have "(e, score kb q (normalize_entity e)) \<in> set (filter (\<lambda>es. 3 / 10 < snd es)
         (map (\<lambda>e. (e, score kb q (normalize_entity e))) (entity_list kb)))"
      by auto
    then have "(e, score kb q (normalize_entity e)) \<in># mset (find_similar_entities kb query 0)"
      unfolding m by simp
    then show ?thesis by auto
  qed
  with m show ?thesis unfolding q_def by blast
qed

theorem find_similar_entities_top_k_zero_witness:
  "(\<exists>e\<in>set (entity_list \<lparr>triplets = [(''a'', ''p'', ''b'')],
         entity_index = create_entity_index [(''a'', ''p'', ''b'')],
         score = (\<lambda>q e. if e = ''a'' then 1 / 2 else (1::rat) / 5)\<rparr>).
       3 / 10 < (if normalize_entity e = ''a'' then 1 / 2 else (1::rat) / 5))
   \<and> find_similar_entities \<lparr>triplets = [(''a'', ''p'', ''b'')],
         entity_index = create_entity_index [(''a'', ''p'', ''b'')],
         score = (\<lambda>q e. if e = ''a'' then 1 / 2 else (1::rat) / 5)\<rparr> ''x'' 0 \<noteq> []"
proof -
  have h: "\<exists>e\<in>set (entity_list \<lparr>triplets = [(''a'', ''p'', ''b'')],
         entity_index = create_entity_index [(''a'', ''p'', ''b'')],
         score = (\<lambda>q e. if e = ''a'' then 1 / 2 else (1::rat) / 5)\<rparr>).
       3 / 10 < (if normalize_entity e = ''a'' then 1 / 2 else (1::rat) / 5)"
    by (simp add: entity_list_def create_entity_index_def index_triplet_def subject_of_def
        object_of_def normalize_entity_def replace_char_def lower_def lower_char_def upper_letters_def lower_letters_def)
  show ?thesis
    using h find_similar_entities_top_k_zero
      [of "\<lparr>triplets = [(''a'', ''p'', ''b'')],
         entity_index = create_entity_index [(''a'', ''p'', ''b'')],
         score = (\<lambda>q e. if e = ''a'' then 1 / 2 else (1::rat) / 5)\<rparr>" "''x''"]
    by simp
qed

lemma sorted_wrt_drop: "sorted_wrt R xs \<Longrightarrow> sorted_wrt R (drop n xs)"
  by (induction xs arbitrary: n) (auto simp: drop_Cons split: nat.splits dest: in_set_dropD)

lemma slice_from_last:
  "1 \<le> k \<Longrightarrow> slice_from xs (- k) = drop (length xs - nat k) xs"
  by (simp add: slice_from_def clamp_bound_def nat_diff_distrib')

lemma similarities_nth:
  "i < length (entity_list kb) \<Longrightarrow>
   similarities kb q ! i = score kb q (normalize_entity (entity_list kb ! i))"
  by (simp add: similarities_def)

lemma argsort_result_positions:
  assumes "argsort_result v p"
  shows "set p = {0..<length v}" and "distinct p" and "length p = length v"
proof -
  have s: "sort p = [0..<length v]" using assms by (simp add: argsort_result_def)
  have "set p = set (sort p)" by simp
  then show "set p = {0..<length v}" unfolding s by simp
  have "distinct (sort p)" unfolding s by simp
  then show "distinct p" by simp
  have "length p = length (sort p)" by simp
  then show "length p = length v" unfolding s by simp
qed

lemma argsort_result_ascending:
  "argsort_result v p \<Longrightarrow> sorted_wrt (\<lambda>i j. v ! i \<le> v ! j) p"
  by (simp add: argsort_result_def sorted_map)

lemma argsort_is_result: "argsort_result v (argsort v)"
proof -
  have "sort (argsort v) = [0..<length v]"
    by (rule properties_for_sort) (simp_all add: argsort_def)
  moreover have "sorted (map (\<lambda>i. v ! i) (argsort v))"
    by (simp add: argsort_def)
  ultimately show ?thesis by (simp add: argsort_result_def)
qed

text \<open>
  Claim C4, as amended. For \<open>top_k \<ge> 1\<close> and whatever admissible result
  \<open>numpy.argsort\<close> gives on the similarities, \<open>find_similar_entities\<close> returns entities of
  the index, each with its similarity to the normalized query: no position twice, every
  similarity above 0.3, at most \<open>top_k\<close> of them, in descending similarity. When no entity
  clears the threshold the result is empty. Nothing is said of the order among entities of
  equal similarity, which follows \<open>numpy.argsort\<close>.
\<close>

theorem find_similar_entities_top_k:
  assumes "1 \<le> top_k"
    and "argsort_result (similarities kb (normalize_entity query))
           (np_argsort (similarities kb (normalize_entity query)))"
  shows "\<exists>is.
      find_similar_entities_by np_argsort kb query top_k
        = map (\<lambda>i. (entity_list kb ! i,
                    score kb (normalize_entity query) (normalize_entity (entity_list kb ! i)))) is
    \<and> distinct is
    \<and> list_all (\<lambda>i. i < length (entity_list kb)
          \<and> 3 / 10 < score kb (normalize_entity query) (normalize_entity (entity_list kb ! i))) is
    \<and> length is \<le> nat top_k
    \<and> sorted_wrt (\<lambda>i j.
          score kb (normalize_entity query) (normalize_entity (entity_list kb ! j))
            \<le> score kb (normalize_entity query) (normalize_entity (entity_list kb ! i))) is
    \<and> (list_all (\<lambda>e. score kb (normalize_entity query) (normalize_entity e) \<le> 3 / 10) (entity_list kb)
         \<longrightarrow> find_similar_entities_by np_argsort kb query top_k = [])"
proof -
  define q where "q = normalize_entity query"
  define sims where "sims = similarities kb q"
  define s where "s = (\<lambda>i. score kb q (normalize_entity (entity_list kb ! i)))"
  define p where "p = np_argsort sims"
  define top where "top = rev (slice_from p (- top_k))"
  define js where "js = filter (\<lambda>idx. 3 / 10 < sims ! idx) top"
  have adm: "argsort_result sims p"
    using assms(2) by (simp add: p_def sims_def q_def)
  have n: "length sims = length (entity_list kb)"
    by (simp add: sims_def length_similarities)
  have top_drop: "top = rev (drop (length p - nat top_k) p)"
    using assms(1) by (simp add: top_def slice_from_last)
  have in_range: "i < length (entity_list kb)" if "i \<in> set top" for i
  proof -
    from that have "i \<in> set p" unfolding top_drop by (auto dest: in_set_dropD)
    then show ?thesis using argsort_result_positions(1) [OF adm] by (simp add: n)
  qed
  have sims_s: "sims ! i = s i" if "i \<in> set top" for i
    unfolding sims_def s_def using in_range [OF that] by (rule similarities_nth)
  have r: "find_similar_entities_by np_argsort kb query top_k
      = map (\<lambda>idx. (entity_list kb ! idx, sims ! idx)) js"
    by (simp add: find_similar_entities_by_def Let_def q_def sims_def p_def top_def js_def)
  have r': "find_similar_entities_by np_argsort kb query top_k
      = map (\<lambda>i. (entity_list kb ! i, s i)) js"
    unfolding r by (rule map_cong) (simp_all add: js_def sims_s)
  have d: "distinct js"
    using argsort_result_positions(2) [OF adm] by (simp add: js_def top_drop)
  have a: "list_all (\<lambda>i. i < length (entity_list kb) \<and> 3 / 10 < s i) js"
    unfolding list_all_iff js_def using in_range sims_s by auto
  have "length top \<le> nat top_k"
    by (simp add: top_drop)
  then have l: "length js \<le> nat top_k"
    unfolding js_def using length_filter_le [of "\<lambda>idx. 3 / 10 < sims ! idx" top] by linarith
  have "sorted_wrt (\<lambda>i j. sims ! i \<le> sims ! j) (drop (length p - nat top_k) p)"
    by (rule sorted_wrt_drop) (rule argsort_result_ascending [OF adm])
  then have "sorted_wrt (\<lambda>i j. sims ! j \<le> sims ! i) top"
    unfolding top_drop by (simp add: sorted_wrt_rev)
  then have "sorted_wrt (\<lambda>i j. sims ! j \<le> sims ! i) js"
    unfolding js_def by (rule sorted_wrt_filter)
  then have o: "sorted_wrt (\<lambda>i j. s j \<le> s i) js"
  proof (rule sorted_wrt_mono_rel [rotated])
    fix i j assume "i \<in> set js" "j \<in> set js" and "sims ! j \<le> sims ! i"
    then show "s j \<le> s i"
      using sims_s by (auto simp: js_def)
  qed
  have e: "find_similar_entities_by np_argsort kb query top_k = []"
    if none: "list_all (\<lambda>e. score kb q (normalize_entity e) \<le> 3 / 10) (entity_list kb)"
  proof -
    have "\<not> 3 / 10 < s i" if "i \<in> set js" for i
    proof -
      from a that have "i < length (entity_list kb)" by (simp add: list_all_iff)
      then have "entity_list kb ! i \<in> set (entity_list kb)" by simp
      with none have "s i \<le> 3 / 10" unfolding s_def list_all_iff by blast
      then show ?thesis by simp
    qed
    with a have "js = []" unfolding list_all_iff by (cases js) auto
    then show ?thesis unfolding r' by simp
  qed
  from r' d a l o e show ?thesis unfolding s_def q_def by blast
qed

theorem find_similar_entities_top_k_witness:
  "(1::int) \<le> 2
   \<and> argsort_result [1 / 2, 2 / 5, (1::rat) / 5] (argsort [1 / 2, 2 / 5, (1::rat) / 5])
   \<and> find_similar_entities_by argsort
        \<lparr>triplets = [(''a'', ''p'', ''b''), (''c'', ''p'', ''a'')],
         entity_index = create_entity_index [(''a'', ''p'', ''b''), (''c'', ''p'', ''a'')],
         score = (\<lambda>q e. if e = ''a'' then 1 / 2 else if e = ''b'' then 2 / 5 else (1::rat) / 5)\<rparr>
        ''x'' 2
       = [(''a'', 1 / 2), (''b'', 2 / 5)]
   \<and> list_all (\<lambda>e. (1::rat) / 5 \<le> 3 / 10)
        (entity_list \<lparr>triplets = [(''a'', ''p'', ''b'')],
           entity_index = create_entity_index [(''a'', ''p'', ''b'')],
           score = (\<lambda>q e. (1::rat) / 5)\<rparr>)
   \<and> find_similar_entities_by argsort
        \<lparr>triplets = [(''a'', ''p'', ''b'')],
         entity_index = create_entity_index [(''a'', ''p'', ''b'')],
         score = (\<lambda>q e. (1::rat) / 5)\<rparr> ''x'' 2 = []"
proof -
  have h: "(1::int) \<le> 2" by simp
  have g: "argsort_result [1 / 2, 2 / 5, (1::rat) / 5] (argsort [1 / 2, 2 / 5, (1::rat) / 5])"
    by (rule argsort_is_result)
  have n: "list_all (\<lambda>e. (1::rat) / 5 \<le> 3 / 10)
        (entity_list \<lparr>triplets = [(''a'', ''p'', ''b'')],
           entity_index = create_entity_index [(''a'', ''p'', ''b'')],
           score = (\<lambda>q e. (1::rat) / 5)\<rparr>)"
    by (simp add: list_all_iff)
  have e: "find_similar_entities_by argsort
        \<lparr>triplets = [(''a'', ''p'', ''b'')],
         entity_index = create_entity_index [(''a'', ''p'', ''b'')],
         score = (\<lambda>q e. (1::rat) / 5)\<rparr> ''x'' 2 = []"
    using n find_similar_entities_top_k
      [where top_k = 2 and np_argsort = argsort and query = "''x''"
         and kb = "\<lparr>triplets = [(''a'', ''p'', ''b'')],
           entity_index = create_entity_index [(''a'', ''p'', ''b'')],
           score = (\<lambda>q e. (1::rat) / 5)\<rparr>",
       OF h argsort_is_result]
    by auto
  have v: "find_similar_entities_by argsort
        \<lparr>triplets = [(''a'', ''p'', ''b''), (''c'', ''p'', ''a'')],
         entity_index = create_entity_index [(''a'', ''p'', ''b''), (''c'', ''p'', ''a'')],
         score = (\<lambda>q e. if e = ''a'' then 1 / 2 else if e = ''b'' then 2 / 5 else (1::rat) / 5)\<rparr>
        ''x'' 2
       = [(''a'', 1 / 2), (''b'', 2 / 5)]"
    by (simp add: find_similar_entities_by_def similarities_def entity_list_def
     create_entity_index_def index_triplet_def subject_of_def object_of_def normalize_entity_def
     replace_char_def lower_def lower_char_def upper_letters_def lower_letters_def argsort_def
     slice_from_def clamp_bound_def Let_def)
  from h g v n e show ?thesis by blast
qed

text \<open>
  Claim C4 as stated fails for \<open>top_k = 0\<close>: on an index of two entities with similarities
  0.5 and 0.4 two entities are returned, not at most zero.
\<close>

theorem find_similar_entities_counterexample:
  "find_similar_entities
        \<lparr>triplets = [(''a'', ''p'', ''b'')],
         entity_index = create_entity_index [(''a'', ''p'', ''b'')],
         score = (\<lambda>q e. if e = ''a'' then 1 / 2 else (2::rat) / 5)\<rparr> ''x'' 0
     = [(''a'', 1 / 2), (''b'', 2 / 5)]
   \<and> \<not> length (find_similar_entities
        \<lparr>triplets = [(''a'', ''p'', ''b'')],
         entity_index = create_entity_index [(''a'', ''p'', ''b'')],
         score = (\<lambda>q e. if e = ''a'' then 1 / 2 else (2::rat) / 5)\<rparr> ''x'' 0) \<le> nat 0"
  by (simp add: find_similar_entities_def find_similar_entities_by_def similarities_def
     entity_list_def create_entity_index_def index_triplet_def subject_of_def object_of_def
     normalize_entity_def replace_char_def lower_def lower_char_def upper_letters_def
     lower_letters_def argsort_def slice_from_def clamp_bound_def Let_def)

text \<open>
  The order among equal similarities is the reverse of the order \<open>numpy.argsort\<close> leaves
  them in: of two entities with the same similarity either may come first.
\<close>

lemma tie_order_follows_argsort:
  "argsort_result [1 / 2, (1::rat) / 2] [0, 1]
   \<and> argsort_result [1 / 2, (1::rat) / 2] [1, 0]
   \<and> find_similar_entities_by (\<lambda>v. [0, 1])
        \<lparr>triplets = [(''a'', ''p'', ''b'')],
         entity_index = create_entity_index [(''a'', ''p'', ''b'')],
         score = (\<lambda>q e. (1::rat) / 2)\<rparr> ''x'' 2 = [(''b'', 1 / 2), (''a'', 1 / 2)]
   \<and> find_similar_entities_by (\<lambda>v. [1, 0])
        \<lparr>triplets = [(''a'', ''p'', ''b'')],
         entity_index = create_entity_index [(''a'', ''p'', ''b'')],
         score = (\<lambda>q e. (1::rat) / 2)\<rparr> ''x'' 2 = [(''a'', 1 / 2), (''b'', 1 / 2)]"
  by (simp add: argsort_result_def find_similar_entities_by_def similarities_def
     entity_list_def create_entity_index_def index_triplet_def subject_of_def object_of_def
     normalize_entity_def replace_char_def lower_def lower_char_def upper_letters_def
     lower_letters_def slice_from_def clamp_bound_def Let_def upt_rec [of 0] upt_rec [of 1])

section \<open>The review loop\<close>

lemma snd_l_response: "snd (l_response self p hist) = hist @ [Language_call p]"
  by (simp add: l_response_def)

lemma reviews_update_loop:
  "filter is_review_call (snd (update_loop self q d fb specialists acc hist))
     = filter is_review_call hist"
proof (induction specialists arbitrary: acc hist)
  case Nil
  show ?case by simp
next
  case (Cons sp rest)
  show ?case
  proof (cases "is_substring (strip (first_line sp)) fb")
    case False
    then show ?thesis by (simp add: Cons.IH)
  next
    case True
    show ?thesis
    proof (cases "l_engine self hist (Specialists_rethink q d fb)")
      case (Inl e)
      with True show ?thesis by (simp add: l_response_def)
    next
      case (Inr opinion)
      with True show ?thesis by (simp add: l_response_def Cons.IH)
    qed
  qed
qed

lemma reviews_update_specialist_opinions:
  "filter is_review_call (snd (update_specialist_opinions self q d ops fb hist))
     = filter is_review_call hist"
proof -
  obtain r h where u: "update_loop self q d fb (findall_experts self ops) [] hist = (r, h)"
    by (cases "update_loop self q d fb (findall_experts self ops) [] hist")
  have "filter is_review_call h = filter is_review_call hist"
    using reviews_update_loop [of self q d fb "findall_experts self ops" "[]" hist] u by simp
  then show ?thesis
    by (cases r) (simp_all add: update_specialist_opinions_def u)
qed

lemma reviews_process_specialist_feedback:
  "filter is_review_call (snd (process_specialist_feedback self q d ops ev hist))
     = filter is_review_call hist"
  by (simp add: process_specialist_feedback_def Let_def reviews_update_specialist_opinions)

lemma reviews_process_feedback_iteration:
  "length (filter is_review_call (snd (process_feedback_iteration self q d ops diag i hist)))
     = length (filter is_review_call hist) + 1"
proof -
  define p where "p = (if i = 0 then Expert_evaluation q d diag ops
                       else Expert_evaluation_followup q d ops diag)"
  define hist1 where "hist1 = hist @ [Language_call p]"
  have c1: "length (filter is_review_call hist1) = length (filter is_review_call hist) + 1"
    by (simp add: hist1_def p_def)
  show ?thesis
  proof (cases "l_engine self hist p")
    case (Inl e)
    then show ?thesis
      using c1 by (simp add: process_feedback_iteration_def l_response_def p_def hist1_def)
  next
    case (Inr ev)
    show ?thesis
    proof (cases "is_substring ''all opinions are consistent'' (lower ev)")
      case True
      with Inr show ?thesis
        using c1 by (simp add: process_feedback_iteration_def l_response_def p_def hist1_def)
    next
      case False
      obtain r hist2 where s: "process_specialist_feedback self q d ops ev hist1 = (r, hist2)"
        by (cases "process_specialist_feedback self q d ops ev hist1")
      have c2: "filter is_review_call hist2 = filter is_review_call hist1"
        using reviews_process_specialist_feedback [of self q d ops ev hist1] s by simp
      have pfi: "process_feedback_iteration self q d ops diag i hist =
        (case r of Inl e \<Rightarrow> (Inl e, hist2)
         | Inr ops' \<Rightarrow>
            if is_substring ''Feedback to Diagnostic Specialist:'' ev
            then (case l_response self (Diagnostic_reassessment q d ops') hist2 of
                    (Inl e, hist3) \<Rightarrow> (Inl e, hist3)
                  | (Inr diag', hist3) \<Rightarrow> (Inr (ops', diag', True), hist3))
            else (Inr (ops', diag, True), hist2))"
        using Inr False s
        by (simp add: process_feedback_iteration_def l_response_def p_def [symmetric] hist1_def [symmetric])
      show ?thesis
      proof (cases r)
        case (Inl e)
        then show ?thesis using c1 c2 by (simp add: pfi)
      next
        case (Inr ops')
        then show ?thesis
          using c1 c2
          by (cases "l_engine self hist2 (Diagnostic_reassessment q d ops')")
             (simp_all add: pfi l_response_def)
      qed
    qed
  qed
qed

lemma reviews_feedback_loop:
  "length (filter is_review_call (snd (feedback_loop self q d ops diag iterations hist)))
     \<le> length (filter is_review_call hist) + length iterations"
proof (induction iterations arbitrary: ops diag hist)
  case Nil
  show ?case by simp
next
  case (Cons i rest)
  obtain r hist1 where p: "process_feedback_iteration self q d ops diag i hist = (r, hist1)"
    by (cases "process_feedback_iteration self q d ops diag i hist")
  have c: "length (filter is_review_call hist1) = length (filter is_review_call hist) + 1"
    using reviews_process_feedback_iteration [of self q d ops diag i hist] p by simp
  show ?case
  proof (cases r)
    case (Inl e)
    then show ?thesis using c p by simp
  next
    case (Inr res)
    obtain ops' diag' cont where res: "res = (ops', diag', cont)" by (cases res)
    show ?thesis
    proof (cases cont)
      case False
      then show ?thesis using c p Inr res by simp
    next
      case True
      have "length (filter is_review_call (snd (feedback_loop self q d ops' diag' rest hist1)))
          \<le> length (filter is_review_call hist1) + length rest"
        by (rule Cons.IH)
      then show ?thesis using c p Inr res True by simp
    qed
  qed
qed

lemma reviews_review_and_integrate:
  "length (filter is_review_call (snd (review_and_integrate self q d ops diag hist)))
     \<le> length (filter is_review_call hist) + 3"
proof -
  obtain r hist1 where f: "feedback_loop self q d ops diag [0..<max_iterations] hist = (r, hist1)"
    by (cases "feedback_loop self q d ops diag [0..<max_iterations] hist")
  have "length (filter is_review_call hist1) \<le> length (filter is_review_call hist) + 3"
    using reviews_feedback_loop [of self q d ops diag "[0..<max_iterations]" hist] f
    by (simp add: max_iterations_def)
  then show ?thesis
    by (cases r) (auto simp: review_and_integrate_def f l_response_def)
qed

lemma reviews_generate_and_refine_scene_graph:
  "filter is_review_call (snd (generate_and_refine_scene_graph self q img path hist))
     = filter is_review_call hist"
  by (simp add: generate_and_refine_scene_graph_def v_response_def
      split: sum.splits option.splits)

text \<open>
  Claim C1. Whatever the engines answer, the feedback loop of \<open>run\<close> over
  \<open>range(max_iterations)\<close> adds at most three evaluation requests to the log, and so does
  the whole processing of one item: at most three review passes.
\<close>

theorem review_passes_bounded:
  "length (filter is_review_call
       (snd (feedback_loop self quest description experts_opinions expert_diagnosis
              [0..<max_iterations] hist)))
     \<le> length (filter is_review_call hist) + 3
   \<and> length (filter is_review_call (snd (answer_question self img quest img_path hist)))
     \<le> length (filter is_review_call hist) + 3"
proof
  show "length (filter is_review_call
       (snd (feedback_loop self quest description experts_opinions expert_diagnosis
              [0..<max_iterations] hist)))
     \<le> length (filter is_review_call hist) + 3"
    using reviews_feedback_loop
      [of self quest description experts_opinions expert_diagnosis "[0..<max_iterations]" hist]
    by (simp add: max_iterations_def)
next
  obtain r1 h1 where g: "generate_and_refine_scene_graph self quest img img_path hist = (r1, h1)"
    by (cases "generate_and_refine_scene_graph self quest img img_path hist")
  have c1: "filter is_review_call h1 = filter is_review_call hist"
    using reviews_generate_and_refine_scene_graph [of self quest img img_path hist] g by simp
  show "length (filter is_review_call (snd (answer_question self img quest img_path hist)))
     \<le> length (filter is_review_call hist) + 3"
  proof (cases r1)
    case (Inl e)
    then show ?thesis using c1 g by (simp add: answer_question_def)
  next
    case (Inr description)
    show ?thesis
    proof (cases "l_engine self h1 (Expert_consultation quest description)")
      case (Inl e)
      then show ?thesis using c1 g Inr by (simp add: answer_question_def l_response_def)
    next
      case c: (Inr consultation)
      define h2 where "h2 = h1 @ [Language_call (Expert_consultation quest description)]"
      show ?thesis
      proof (cases "l_engine self h2 (Expert_opinions quest description consultation)")
        case (Inl e)
        then show ?thesis using c1 g Inr c by (simp add: answer_question_def l_response_def h2_def)
      next
        case o: (Inr opinions)
        define h3 where "h3 = h2 @ [Language_call (Expert_opinions quest description consultation)]"
        show ?thesis
        proof (cases "l_engine self h3 (Expert_diagnosis quest description opinions)")
          case (Inl e)
          then show ?thesis
            using c1 g Inr c o by (simp add: answer_question_def l_response_def h2_def h3_def)
        next
          case dg: (Inr diagnosis)
          define h4 where "h4 = h3 @ [Language_call (Expert_diagnosis quest description opinions)]"
          have c4: "filter is_review_call h4 = filter is_review_call hist"
            by (simp add: h4_def h3_def h2_def c1)
          have "answer_question self img quest img_path hist
              = review_and_integrate self quest description opinions diagnosis h4"
            using g Inr c o dg by (simp add: answer_question_def l_response_def h2_def h3_def h4_def)
          then show ?thesis
            using reviews_review_and_integrate [of self quest description opinions diagnosis h4] c4
            by simp
        qed
      qed
    qed
  qed
qed

text \<open>
  Claim C3. When the evaluation text contains "all opinions are consistent" in any letter
  case, \<open>process_feedback_iteration\<close> returns the opinions and the diagnosis unchanged with
  the flag \<open>False\<close>, having made the evaluation request only; the loop stops there whatever
  iterations remain; and in \<open>run\<close>, where this is the first iteration, the next request is
  the integration summary over the unchanged opinions and diagnosis.
\<close>

theorem consistent_review_stops_loop:
  assumes "l_engine self hist
             (if iteration = 0
              then Expert_evaluation quest description expert_diagnosis experts_opinions
              else Expert_evaluation_followup quest description experts_opinions expert_diagnosis)
           = Inr expert_evaluation"
    and "is_substring ''all opinions are consistent'' (lower expert_evaluation)"
  shows "process_feedback_iteration self quest description experts_opinions expert_diagnosis
           iteration hist
         = (Inr (experts_opinions, expert_diagnosis, False),
            hist @ [Language_call
              (if iteration = 0
               then Expert_evaluation quest description expert_diagnosis experts_opinions
               else Expert_evaluation_followup quest description experts_opinions expert_diagnosis)])
    \<and> feedback_loop self quest description experts_opinions expert_diagnosis
           (iteration # rest) hist
         = (Inr (experts_opinions, expert_diagnosis),
            hist @ [Language_call
              (if iteration = 0
               then Expert_evaluation quest description expert_diagnosis experts_opinions
               else Expert_evaluation_followup quest description experts_opinions expert_diagnosis)])
    \<and> (iteration = 0 \<longrightarrow>
         review_and_integrate self quest description experts_opinions expert_diagnosis hist
         = l_response self
             (Integration_summary quest description
                (experts_opinions @ [newline, newline] @ expert_diagnosis))
             (hist @ [Language_call
                (Expert_evaluation quest description expert_diagnosis experts_opinions)]))"
proof -
  have p: "process_feedback_iteration self quest description experts_opinions expert_diagnosis
           iteration hist
         = (Inr (experts_opinions, expert_diagnosis, False),
            hist @ [Language_call
              (if iteration = 0
               then Expert_evaluation quest description expert_diagnosis experts_opinions
               else Expert_evaluation_followup quest description experts_opinions expert_diagnosis)])"
    using assms by (simp add: process_feedback_iteration_def l_response_def)
  then have f: "feedback_loop self quest description experts_opinions expert_diagnosis
           (iteration # rest) hist
         = (Inr (experts_opinions, expert_diagnosis),
            hist @ [Language_call
              (if iteration = 0
               then Expert_evaluation quest description expert_diagnosis experts_opinions
               else Expert_evaluation_followup quest description experts_opinions expert_diagnosis)])"
    for rest
    by simp
  have "review_and_integrate self quest description experts_opinions expert_diagnosis hist
         = l_response self
             (Integration_summary quest description
                (experts_opinions @ [newline, newline] @ expert_diagnosis))
             (hist @ [Language_call
                (Expert_evaluation quest description expert_diagnosis experts_opinions)])"
    if "iteration = 0"
    using f [of "[1..<max_iterations]"] that
    by (simp add: review_and_integrate_def max_iterations_def upt_rec [of 0])
  with p f show ?thesis by blast
qed

theorem consistent_review_stops_loop_witness:
  "(\<lambda>h p. Inr ''Review Analysis: fine. All opinions are consistent.'' :: exn + string) []
       (if (0::nat) = 0 then Expert_evaluation ''q'' ''d'' ''dg'' ''ops''
        else Expert_evaluation_followup ''q'' ''d'' ''ops'' ''dg'')
     = Inr ''Review Analysis: fine. All opinions are consistent.''
   \<and> is_substring ''all opinions are consistent''
        (lower ''Review Analysis: fine. All opinions are consistent.'')
   \<and> (0::nat) = 0
   \<and> review_and_integrate
        \<lparr>dataset = (\<lambda>i. Inl (Raised ''no item'') :: exn + (unit \<times> string \<times> string \<times> string)),
         dataset_len = 0, max_retries = 1,
         v_engine = (\<lambda>h p i f. Inr ''{}''),
         l_engine = (\<lambda>h p. Inr ''Review Analysis: fine. All opinions are consistent.''),
         scene_graph_refiner = None,
         findall_experts = (\<lambda>s. [])\<rparr> ''q'' ''d'' ''ops'' ''dg'' []
       = (Inr ''Review Analysis: fine. All opinions are consistent.'',
          [Language_call (Expert_evaluation ''q'' ''d'' ''dg'' ''ops''),
           Language_call (Integration_summary ''q'' ''d'' (''ops'' @ [newline, newline] @ ''dg''))])"
proof -
  have s: "is_substring ''all opinions are consistent''
        (lower ''Review Analysis: fine. All opinions are consistent.'')"
    by (simp add: lower_def lower_char_def upper_letters_def lower_letters_def)
  show ?thesis
    using s consistent_review_stops_loop
      [of "\<lparr>dataset = (\<lambda>i. Inl (Raised ''no item'') :: exn + (unit \<times> string \<times> string \<times> string)),
         dataset_len = 0, max_retries = 1,
         v_engine = (\<lambda>h p i f. Inr ''{}''),
         l_engine = (\<lambda>h p. Inr ''Review Analysis: fine. All opinions are consistent.''),
         scene_graph_refiner = None,
         findall_experts = (\<lambda>s. [])\<rparr>" "[]" 0 "''q''" "''d''" "''dg''" "''ops''"
         "''Review Analysis: fine. All opinions are consistent.''"]
    by (simp add: l_response_def)
qed

text \<open>
  Claim C2 at a failing input: the dataset raises when the first item of a fresh run is read.
  The handler reads the local \<open>question\<close>, which is still unbound; that raises outside the
  \<open>try\<close> block, so no entry is written and the run ends with the exception.
\<close>

theorem run_aborts_on_unreadable_first_item:
  "process_item
     \<lparr>dataset = (\<lambda>i. Inl (Raised ''cannot identify image file'')
                   :: exn + (unit \<times> string \<times> string \<times> string)),
      dataset_len = 2, max_retries = 3,
      v_engine = (\<lambda>h p i f. Inr ''{}''),
      l_engine = (\<lambda>h p. Inr ''all opinions are consistent''),
      scene_graph_refiner = None,
      findall_experts = (\<lambda>s. [])\<rparr> 0 (initial_state None)
     = Inl (Unbound_local ''question'')
   \<and> run
     \<lparr>dataset = (\<lambda>i. Inl (Raised ''cannot identify image file'')
                   :: exn + (unit \<times> string \<times> string \<times> string)),
      dataset_len = 2, max_retries = 3,
      v_engine = (\<lambda>h p i f. Inr ''{}''),
      l_engine = (\<lambda>h p. Inr ''all opinions are consistent''),
      scene_graph_refiner = None,
      findall_experts = (\<lambda>s. [])\<rparr> None
     = Inl (Unbound_local ''question'')"
  by (simp add: run_def process_item_def save_error_result_def initial_state_def
      filter_finished_def numeral_3_eq_3 upto_rec1 [of 0])

text \<open>
  Once the item has been read, every exception of its processing is recorded as an
  \<open>Error:\<close> prediction for the index, and the loop goes on.
\<close>

lemma save_error_result_bound:
  "question_var st = Some quest \<Longrightarrow> answer_var st = Some ans \<Longrightarrow>
   save_error_result e idx st
     = Inr (st\<lparr>ledger_file :=
             format_json_out_put quest ans (''Error: '' @ message e) idx (ledger_file st)\<rparr>)"
  by (simp add: save_error_result_def)

lemma process_item_after_read:
  assumes "dataset self idx = Inr (img, quest, ans, img_path)"
  shows "\<exists>st1 pred. process_item self idx st = Inr st1
     \<and> ledger_file st1 = format_json_out_put quest ans pred idx (ledger_file st)
     \<and> (case fst (answer_question self img quest img_path (calls st)) of
           Inl e \<Rightarrow> pred = ''Error: '' @ message e
         | Inr final_answer \<Rightarrow> pred = final_answer)"
proof (cases "answer_question self img quest img_path (calls st)")
  case (Pair r h)
  show ?thesis
    using assms Pair
    by (cases r) (simp_all add: process_item_def save_error_result_def)
qed

section \<open>The concrete retrieval scenario\<close>

lemma dot_scale: "dot (map (\<lambda>x. x / c) u) (map (\<lambda>x. x / d) v) = dot u v / (c * d)"
proof (induction u arbitrary: v)
  case Nil
  show ?case by (simp add: dot_def)
next
  case (Cons x u)
  show ?case
  proof (cases v)
    case Nil
    then show ?thesis by (simp add: dot_def)
  next
    case (Cons y v')
    have "dot (map (\<lambda>x. x / c) u) (map (\<lambda>x. x / d) v') = dot u v' / (c * d)"
      by (rule Cons.IH)
    then show ?thesis
      using Cons by (simp add: dot_def add_divide_distrib)
  qed
qed

lemma dot_self_nonneg: "0 \<le> dot v v"
  by (induction v) (simp_all add: dot_def)

lemma l2_normalize_positive:
  "0 < dot v v \<Longrightarrow> l2_normalize v = map (\<lambda>x. x / sqrt (dot v v)) v"
  by (simp add: l2_normalize_def)

lemma dot_l2_normalize_self:
  assumes "0 < dot v v"
  shows "dot (l2_normalize v) (l2_normalize v) = 1"
proof -
  have "dot (l2_normalize v) (l2_normalize v) = dot v v / (sqrt (dot v v) * sqrt (dot v v))"
    using assms by (simp add: l2_normalize_positive dot_scale)
  also have "\<dots> = 1" using assms by simp
  finally show ?thesis .
qed

lemma l2_normalize_idem:
  assumes "0 < dot v v"
  shows "l2_normalize (l2_normalize v) = l2_normalize v"
proof -
  have "dot (l2_normalize v) (l2_normalize v) = 1"
    using assms by (rule dot_l2_normalize_self)
  then show ?thesis
    by (simp add: l2_normalize_def [of "l2_normalize v"])
qed

lemma cosine_of_normalized:
  assumes "0 < dot u u" and "0 < dot v v"
  shows "cosine_similarity (l2_normalize u) (l2_normalize v)
           = dot u v / (sqrt (dot u u) * sqrt (dot v v))"
  using assms
  by (simp add: cosine_similarity_def l2_normalize_idem)
     (simp add: l2_normalize_positive dot_scale)

lemma cosine_orthogonal:
  assumes "0 < dot u u" and "0 < dot v v" and "dot u v = 0"
  shows "cosine_similarity (l2_normalize u) (l2_normalize v) = 0"
  using assms by (simp add: cosine_of_normalized)

lemma cosine_same:
  assumes "0 < dot u u"
  shows "cosine_similarity (l2_normalize u) (l2_normalize u) = 1"
  using assms by (simp add: cosine_of_normalized)

lemma scenario_vocabulary: "vocabulary scenario_texts =
  ['' no'', ''nod'', ''odu'', ''dul'', ''ule'', ''le '', '' nod'', ''nodu'',
  ''odul'', ''dule'', ''ule '', '' nodu'', ''nodul'', ''odule'', ''dule '',
  '' ri'', ''rig'', ''igh'', ''ght'', ''ht '', '' rig'', ''righ'', ''ight'',
  ''ght '', '' righ'', ''right'', ''ight '', '' lu'', ''lun'', ''ung'',
  ''ng '', '' lun'', ''lung'', ''ung '', '' lung'', ''lung '', '' 2c'',
  ''2cm'', ''cm '', '' 2cm'', ''2cm '', '' 2cm '']"
  by code_simp

lemma scenario_tf_lung_nodule: "map (count_list (char_wb_ngrams ''lung nodule'')) (vocabulary scenario_texts) =
  [1,1,1,1,1,1,1,1,1,1,1,1,1,1,1, 0,0,0,0,0,0,0,0,0,0,0,0, 1,1,1,1,1,1,1,1,1, 0,0,0,0,0,0]"
  by code_simp

lemma scenario_tf_right_lung: "map (count_list (char_wb_ngrams ''right lung'')) (vocabulary scenario_texts) =
  [0,0,0,0,0,0,0,0,0,0,0,0,0,0,0, 1,1,1,1,1,1,1,1,1,1,1,1, 1,1,1,1,1,1,1,1,1, 0,0,0,0,0,0]"
  by code_simp

lemma scenario_tf_2cm: "map (count_list (char_wb_ngrams ''2cm'')) (vocabulary scenario_texts) =
  [0,0,0,0,0,0,0,0,0,0,0,0,0,0,0, 0,0,0,0,0,0,0,0,0,0,0,0, 0,0,0,0,0,0,0,0,0, 1,1,1,1,1,1]"
  by code_simp

lemma scenario_document_frequencies: "map (document_frequency scenario_texts) (vocabulary scenario_texts) =
  [1, 1, 1, 1, 1, 1, 1, 1, 1, 1, 1, 1, 1, 1, 1, 1, 1, 1, 1, 1, 1, 1, 1, 1, 1,
  1, 1, 2, 2, 2, 2, 2, 2, 2, 2, 2, 1, 1, 1, 1, 1, 1]"
  by code_simp

lemma tfidf_weights_zip:
  "tfidf_weights corpus text =
     map2 (\<lambda>n d. real n * (ln ((1 + real (length corpus)) / (1 + real d)) + 1))
       (map (count_list (char_wb_ngrams text)) (vocabulary corpus))
       (map (document_frequency corpus) (vocabulary corpus))"
  by (simp add: tfidf_weights_def idf_def zip_map_map map_zip_map map_zip_map2 o_def)
     (simp add: zip_same_conv_map)

lemma weights_lung_nodule:
  assumes "a = ln (4 / 3) + 1" and "b = ln 2 + 1"
  shows "tfidf_weights scenario_texts ''lung nodule'' =
    [b,b,b,b,b,b,b,b,b,b,b,b,b,b,b, 0,0,0,0,0,0,0,0,0,0,0,0, a,a,a,a,a,a,a,a,a, 0,0,0,0,0,0]"
  unfolding tfidf_weights_zip scenario_tf_lung_nodule scenario_document_frequencies by (simp add: scenario_texts_def assms)

lemma weights_right_lung:
  assumes "a = ln (4 / 3) + 1" and "b = ln 2 + 1"
  shows "tfidf_weights scenario_texts ''right lung'' =
    [0,0,0,0,0,0,0,0,0,0,0,0,0,0,0, b,b,b,b,b,b,b,b,b,b,b,b, a,a,a,a,a,a,a,a,a, 0,0,0,0,0,0]"
  unfolding tfidf_weights_zip scenario_tf_right_lung scenario_document_frequencies by (simp add: scenario_texts_def assms)

lemma weights_2cm:
  assumes "a = ln (4 / 3) + 1" and "b = ln 2 + 1"
  shows "tfidf_weights scenario_texts ''2cm'' =
    [0,0,0,0,0,0,0,0,0,0,0,0,0,0,0, 0,0,0,0,0,0,0,0,0,0,0,0, 0,0,0,0,0,0,0,0,0, b,b,b,b,b,b]"
  unfolding tfidf_weights_zip scenario_tf_2cm scenario_document_frequencies by (simp add: scenario_texts_def assms)


lemma idf_ratio:
  fixes a b :: real
  assumes "a = ln (4 / 3) + 1" and "b = ln 2 + 1"
  shows "0 < a" and "5 * a \<le> 4 * b"
proof -
  have "0 \<le> ln (4 / 3 :: real)" by simp
  then show "0 < a" unfolding assms by linarith
  have e: "exp (1::real) \<le> 243 / 64"
    using exp_le by simp
  have "(1::real) \<le> ln (243 / 64)"
    using e by (simp add: ln_ge_iff)
  also have "(243 / 64 :: real) = 2 ^ 4 / (4 / 3) ^ 5" by (simp add: power_divide)
  also have "ln (2 ^ 4 / (4 / 3) ^ 5 :: real) = 4 * ln 2 - 5 * ln (4 / 3)"
    by (simp only: ln_div ln_realpow) simp
  finally have "1 \<le> 4 * ln 2 - 5 * ln (4 / 3 :: real)" .
  then have "5 * (ln (4 / 3) + 1) \<le> 4 * (ln 2 + (1::real))"
    by (simp add: algebra_simps)
  then show "5 * a \<le> 4 * b" unfolding assms .
qed

lemma similarity_below_threshold:
  fixes a b :: real
  assumes "0 < a" and "5 * a \<le> 4 * b"
  shows "9 * a\<^sup>2 / (sqrt (9 * a\<^sup>2 + 15 * b\<^sup>2) * sqrt (9 * a\<^sup>2 + 12 * b\<^sup>2)) \<le> 3 / 10"
    and "0 < 9 * a\<^sup>2 / (sqrt (9 * a\<^sup>2 + 15 * b\<^sup>2) * sqrt (9 * a\<^sup>2 + 12 * b\<^sup>2))"
proof -
  have b: "0 < b" using assms by linarith
  have "(5 * a)\<^sup>2 \<le> (4 * b)\<^sup>2"
    by (rule power_mono) (use assms in simp_all)
  then have b2: "25 * a\<^sup>2 \<le> 16 * b\<^sup>2" by (simp add: power_mult_distrib)
  have a2: "0 \<le> a\<^sup>2" by simp
  have "25 * a\<^sup>2 * (25 * a\<^sup>2) \<le> 16 * b\<^sup>2 * (16 * b\<^sup>2)"
    by (rule mult_mono) (use b2 a2 in simp_all)
  then have b4: "625 * (a\<^sup>2 * a\<^sup>2) \<le> 256 * (b\<^sup>2 * b\<^sup>2)" by simp
  have "25 * a\<^sup>2 * a\<^sup>2 \<le> 16 * b\<^sup>2 * a\<^sup>2"
    by (rule mult_right_mono) (use b2 a2 in simp_all)
  then have ab: "25 * (a\<^sup>2 * a\<^sup>2) \<le> 16 * (a\<^sup>2 * b\<^sup>2)" by (simp add: mult.commute)
  have "819 * (a\<^sup>2 * a\<^sup>2) \<le> 243 * (a\<^sup>2 * b\<^sup>2) + 180 * (b\<^sup>2 * b\<^sup>2)"
    using b4 ab zero_le_mult_iff [of "a\<^sup>2" "a\<^sup>2"] a2 by linarith
  then have "(30 * a\<^sup>2)\<^sup>2 \<le> (9 * a\<^sup>2 + 15 * b\<^sup>2) * (9 * a\<^sup>2 + 12 * b\<^sup>2)"
    by (simp add: algebra_simps power2_eq_square)
  then have "30 * a\<^sup>2 \<le> sqrt ((9 * a\<^sup>2 + 15 * b\<^sup>2) * (9 * a\<^sup>2 + 12 * b\<^sup>2))"
    by (rule real_le_rsqrt)
  then have le: "30 * a\<^sup>2 \<le> sqrt (9 * a\<^sup>2 + 15 * b\<^sup>2) * sqrt (9 * a\<^sup>2 + 12 * b\<^sup>2)"
    by (simp add: real_sqrt_mult)
  have pos: "0 < sqrt (9 * a\<^sup>2 + 15 * b\<^sup>2) * sqrt (9 * a\<^sup>2 + 12 * b\<^sup>2)"
    by (rule mult_pos_pos) (use assms(1) b in \<open>simp_all add: add_pos_pos\<close>)
  show "9 * a\<^sup>2 / (sqrt (9 * a\<^sup>2 + 15 * b\<^sup>2) * sqrt (9 * a\<^sup>2 + 12 * b\<^sup>2)) \<le> 3 / 10"
    using le pos by (simp add: field_simps)
  show "0 < 9 * a\<^sup>2 / (sqrt (9 * a\<^sup>2 + 15 * b\<^sup>2) * sqrt (9 * a\<^sup>2 + 12 * b\<^sup>2))"
    by (rule divide_pos_pos) (use pos assms(1) in simp_all)
qed

lemma scenario_dots:
  assumes "a = ln (4 / 3) + 1" and "b = ln 2 + 1"
  shows "dot (tfidf_weights scenario_texts ''lung nodule'') (tfidf_weights scenario_texts ''lung nodule'')
           = 9 * a\<^sup>2 + 15 * b\<^sup>2"
    and "dot (tfidf_weights scenario_texts ''right lung'') (tfidf_weights scenario_texts ''right lung'')
           = 9 * a\<^sup>2 + 12 * b\<^sup>2"
    and "dot (tfidf_weights scenario_texts ''2cm'') (tfidf_weights scenario_texts ''2cm'') = 6 * b\<^sup>2"
    and "dot (tfidf_weights scenario_texts ''lung nodule'') (tfidf_weights scenario_texts ''right lung'')
           = 9 * a\<^sup>2"
    and "dot (tfidf_weights scenario_texts ''lung nodule'') (tfidf_weights scenario_texts ''2cm'') = 0"
  unfolding weights_lung_nodule [OF assms] weights_right_lung [OF assms] weights_2cm [OF assms]
  by (simp_all add: dot_def power2_eq_square)

lemma scenario_similarities:
  fixes a b :: real
  assumes "a = ln (4 / 3) + 1" and "b = ln 2 + 1"
  shows "tfidf_cosine scenario_texts ''lung nodule'' ''lung nodule'' = 1"
    and "tfidf_cosine scenario_texts ''lung nodule'' ''right lung''
           = 9 * a\<^sup>2 / (sqrt (9 * a\<^sup>2 + 15 * b\<^sup>2) * sqrt (9 * a\<^sup>2 + 12 * b\<^sup>2))"
    and "tfidf_cosine scenario_texts ''lung nodule'' ''2cm'' = 0"
proof -
  have a: "0 < a" using idf_ratio(1) [OF assms] .
  have b: "0 < b" using idf_ratio [OF assms] by linarith
  have p0: "0 < dot (tfidf_weights scenario_texts ''lung nodule'') (tfidf_weights scenario_texts ''lung nodule'')"
    unfolding scenario_dots(1) [OF assms] using a b by (simp add: add_pos_pos)
  have p1: "0 < dot (tfidf_weights scenario_texts ''right lung'') (tfidf_weights scenario_texts ''right lung'')"
    unfolding scenario_dots(2) [OF assms] using a b by (simp add: add_pos_pos)
  have p2: "0 < dot (tfidf_weights scenario_texts ''2cm'') (tfidf_weights scenario_texts ''2cm'')"
    unfolding scenario_dots(3) [OF assms] using b by simp
  show "tfidf_cosine scenario_texts ''lung nodule'' ''lung nodule'' = 1"
    unfolding tfidf_cosine_def tfidf_vector_def using p0 by (rule cosine_same)
  show "tfidf_cosine scenario_texts ''lung nodule'' ''right lung''
           = 9 * a\<^sup>2 / (sqrt (9 * a\<^sup>2 + 15 * b\<^sup>2) * sqrt (9 * a\<^sup>2 + 12 * b\<^sup>2))"
    unfolding tfidf_cosine_def tfidf_vector_def cosine_of_normalized [OF p0 p1]
    by (simp only: scenario_dots [OF assms])
  show "tfidf_cosine scenario_texts ''lung nodule'' ''2cm'' = 0"
    unfolding tfidf_cosine_def tfidf_vector_def
    using p0 p2 scenario_dots(5) [OF assms] by (rule cosine_orthogonal)
qed

lemma scenario_index:
  "create_entity_index
     [(''lung nodule'', ''located_in'', ''right lung''), (''lung nodule'', ''has_size'', ''2cm'')]
   = [(''lung nodule'', [(''lung nodule'', ''located_in'', ''right lung''),
                         (''lung nodule'', ''has_size'', ''2cm'')]),
      (''right lung'', [(''lung nodule'', ''located_in'', ''right lung'')]),
      (''2cm'', [(''lung nodule'', ''has_size'', ''2cm'')])]"
  by (simp add: create_entity_index_def index_triplet_def subject_of_def object_of_def)

lemma scenario_normalized:
  "normalize_entity ''Lung Nodule'' = ''lung nodule''"
  "normalize_entity ''lung nodule'' = ''lung nodule''"
  "normalize_entity ''right lung'' = ''right lung''"
  "normalize_entity ''2cm'' = ''2cm''"
  by (simp_all add: normalize_entity_def replace_char_def lower_def lower_char_def upper_letters_def lower_letters_def)

text \<open>
  Claim C6. On the store of the two triplets about "lung nodule", with the index built from
  them, the entity "Lung Nodule" has no bucket of its own; the only similar entity above the
  threshold is "lung nodule", with similarity 1; and \<open>retrieve_entity_knowledge\<close> with a
  budget of 4 returns the two triplets, in store order.
\<close>

theorem lung_nodule_scenario:
  "map_of (create_entity_index scenario_triplets) ''Lung Nodule'' = None
   \<and> find_similar_entities
        (build_retriever scenario_triplets (create_entity_index scenario_triplets))
        ''Lung Nodule'' 3 = [(''lung nodule'', 1)]
   \<and> retrieve_entity_knowledge
        (build_retriever scenario_triplets (create_entity_index scenario_triplets))
        ''Lung Nodule'' 4
      = [(''lung nodule'', ''located_in'', ''right lung''), (''lung nodule'', ''has_size'', ''2cm'')]"
proof -
  define a :: real where "a = ln (4 / 3) + 1"
  define b :: real where "b = ln 2 + 1"
  define c where "c = 9 * a\<^sup>2 / (sqrt (9 * a\<^sup>2 + 15 * b\<^sup>2) * sqrt (9 * a\<^sup>2 + 12 * b\<^sup>2))"
  define ts :: "triplet list" where
    "ts = [(''lung nodule'', ''located_in'', ''right lung''), (''lung nodule'', ''has_size'', ''2cm'')]"
  define kb where "kb = build_retriever ts (create_entity_index ts)"
  have st: "scenario_triplets = ts"
    by (simp add: scenario_triplets_def ts_def)
  have idx: "entity_index kb = [(''lung nodule'', ts), (''right lung'', [hd ts]), (''2cm'', [last ts])]"
    by (simp add: kb_def build_retriever_def ts_def scenario_index)
  have sc: "score kb = tfidf_cosine scenario_texts"
    by (simp add: kb_def build_retriever_def ts_def scenario_index scenario_normalized scenario_texts_def)
  have c: "0 < c" "c \<le> 3 / 10"
    unfolding c_def
    using similarity_below_threshold [OF idf_ratio [OF a_def b_def]] by simp_all
  have sims: "similarities kb ''lung nodule'' = [1, c, 0]"
    by (simp add: similarities_def entity_list_def idx sc scenario_normalized c_def
        scenario_similarities [OF a_def b_def])
  have miss: "map_of (create_entity_index ts) ''Lung Nodule'' = None"
    by (simp add: ts_def scenario_index)
  have arg: "argsort [1, c, 0] = [2, 1, 0]"
    using c by (simp add: argsort_def upt_rec [of 0] upt_rec [of 1] upt_rec [of 2])
  have sim: "find_similar_entities kb ''Lung Nodule'' 3 = [(''lung nodule'', 1)]"
    using c
    by (simp add: find_similar_entities_def find_similar_entities_by_def scenario_normalized sims arg slice_from_def clamp_bound_def
        entity_list_def idx)
  have "retrieve_entity_knowledge kb ''Lung Nodule'' 4 = ts"
    using miss
    by (simp add: retrieve_entity_knowledge_def sim idx extend_with_similar_def slice_to_def
        clamp_bound_def ts_def scenario_index)
  with miss sim show ?thesis unfolding st kb_def ts_def by simp
qed

end
